theory Spec2Isabelle
  imports Main "HOL-Library.Word" "HOL-Library.Product_Lexorder"
begin

unbundle bit_operations_syntax

section \<open>JavaScript values used by the adapter\<close>

text \<open>
  JavaScript numbers that hold line numbers, column numbers, indices and VLQ values are
  modelled as \<^typ>\<open>int\<close>: every value the code computes on them is an integer, and sums stay
  exact below \<open>2 ^ 53\<close>. The bitwise operators convert their operands to signed 32-bit
  integers first (\<open>ToInt32\<close>); \<open>undefined\<close> converts to \<open>0\<close>. An optional field or an
  \<open>undefined\<close> result is an \<^typ>\<open>'a option\<close>. Strings are lists of characters.
\<close>

definition toInt32 :: "int \<Rightarrow> int" where
  "toInt32 x = signed_take_bit 31 x"

text \<open>\<open>d & m\<close> for a possibly undefined \<open>d\<close>.\<close>

definition jsBitAnd :: "int option \<Rightarrow> int \<Rightarrow> int" where
  "jsBitAnd d m = (case d of None \<Rightarrow> 0 | Some x \<Rightarrow> toInt32 x AND toInt32 m)"

text \<open>\<open>x << n\<close>: the shift count is taken modulo 32 and the result is a signed 32-bit integer.\<close>

definition jsShiftLeft :: "int \<Rightarrow> nat \<Rightarrow> int" where
  "jsShiftLeft x n = toInt32 (push_bit (n mod 32) (toInt32 x))"

text \<open>\<open>x >> n\<close>: arithmetic shift of the signed 32-bit value.\<close>

definition jsShiftRight :: "int \<Rightarrow> nat \<Rightarrow> int" where
  "jsShiftRight x n = drop_bit (n mod 32) (toInt32 x)"

text \<open>\<open>s.charAt(i)\<close>: the one-character string at \<open>i\<close>, the empty string out of range.\<close>

definition charAt :: "string \<Rightarrow> nat \<Rightarrow> string" where
  "charAt s i = (if i < length s then [s ! i] else [])"

text \<open>\<open>xs[i]\<close> for a number \<open>i\<close>: \<open>undefined\<close> out of range.\<close>

definition jsIndex :: "'a list \<Rightarrow> int \<Rightarrow> 'a option" where
  "jsIndex xs i = (if 0 \<le> i \<and> nat i < length xs then Some (xs ! nat i) else None)"

section \<open>sourceMap.ts: the character iterator and VLQ decoding\<close>

record StringCharIterator =
  string_of :: string
  position :: nat

definition newStringCharIterator :: "string \<Rightarrow> StringCharIterator" where
  "newStringCharIterator s = \<lparr>string_of = s, position = 0\<rparr>"

text \<open>\<open>next\<close> returns the character and advances, also past the end of the string.\<close>

definition next_char :: "StringCharIterator \<Rightarrow> string \<times> StringCharIterator" where
  "next_char it = (charAt (string_of it) (position it), it\<lparr>position := position it + 1\<rparr>)"

definition peek :: "StringCharIterator \<Rightarrow> string" where
  "peek it = charAt (string_of it) (position it)"

definition hasNext :: "StringCharIterator \<Rightarrow> bool" where
  "hasNext it = (position it < length (string_of it))"

definition base64Digits :: string where
  "base64Digits = ''ABCDEFGHIJKLMNOPQRSTUVWXYZabcdefghijklmnopqrstuvwxyz0123456789+/''"

text \<open>The object built by the loop \<open>result[base64Digits.charAt(i)] = i\<close>.\<close>

definition base64Map :: "string \<rightharpoonup> int" where
  "base64Map =
     fold (\<lambda>i m. m(charAt base64Digits i \<mapsto> int i)) [0..<length base64Digits] Map.empty"

definition isSeparator :: "string \<Rightarrow> bool" where
  "isSeparator c = (c = '','' \<or> c = '';'')"

definition VLQ_BASE_SHIFT :: nat where
  "VLQ_BASE_SHIFT = 5"

definition VLQ_BASE_MASK :: int where
  "VLQ_BASE_MASK = jsShiftLeft 1 5 - 1"

definition VLQ_CONTINUATION_MASK :: int where
  "VLQ_CONTINUATION_MASK = jsShiftLeft 1 5"

text \<open>
  The \<open>do ... while (digit & VLQ_CONTINUATION_MASK)\<close> loop of \<open>decodeVLQ\<close>, with the
  accumulated \<open>result\<close> and \<open>shift\<close> as arguments. The loop goes on only after a character
  of the alphabet, which lies inside the string, so the distance to the end of the string
  decreases.
\<close>

function decodeVLQ_loop :: "StringCharIterator \<Rightarrow> int \<Rightarrow> nat \<Rightarrow> int \<times> StringCharIterator" where
  "decodeVLQ_loop it result shift =
     (let digit = base64Map (fst (next_char it));
          it' = snd (next_char it);
          result' = result + jsShiftLeft (jsBitAnd digit VLQ_BASE_MASK) shift;
          shift' = shift + VLQ_BASE_SHIFT
      in if jsBitAnd digit VLQ_CONTINUATION_MASK \<noteq> 0
         then decodeVLQ_loop it' result' shift'
         else (result', it'))"
  by pat_completeness auto
termination
proof (relation "measure (\<lambda>(it, result, shift). length (string_of it) - position it)")
  show "wf (measure (\<lambda>(it, result, shift). length (string_of it) - position it))"
    by simp
next
  fix it :: StringCharIterator and result :: int and shift :: nat
  fix digit it' result' shift'
  assume digit: "digit = base64Map (fst (next_char it))" and it': "it' = snd (next_char it)"
    and continue: "jsBitAnd digit VLQ_CONTINUATION_MASK \<noteq> 0"
  have no_empty_key: "base64Map [] = None"
    by code_simp
  have "position it < length (string_of it)"
  proof (rule ccontr)
    assume "\<not> position it < length (string_of it)"
    then have "fst (next_char it) = []"
      by (simp add: next_char_def charAt_def)
    with digit continue no_empty_key show False
      by (simp add: jsBitAnd_def)
  qed
  moreover have "position it' = position it + 1" "string_of it' = string_of it"
    using it' by (simp_all add: next_char_def)
  ultimately show "((it', result', shift'), (it, result, shift))
      \<in> measure (\<lambda>(it, result, shift). length (string_of it) - position it)"
    by simp
qed

declare decodeVLQ_loop.simps [simp del]

definition decodeVLQ :: "StringCharIterator \<Rightarrow> int \<times> StringCharIterator" where
  "decodeVLQ it =
     (let (result, it') = decodeVLQ_loop it 0 0;
          negative = toInt32 result AND 1;
          result' = jsShiftRight result 1
      in (if negative \<noteq> 0 then - result' else result', it'))"

text \<open>The loop condition of \<open>decodeVLQ\<close> on the character just read.\<close>

definition continues :: "string \<Rightarrow> bool" where
  "continues c = (jsBitAnd (base64Map c) VLQ_CONTINUATION_MASK \<noteq> 0)"

section \<open>sourceMap.ts: entries, sorting and binary search\<close>

datatype jsError = TypeError | SyntaxError | NetworkError

record SourceMapEntry =
  lineNumber :: int
  columnNumber :: int
  sourceUrl :: "string option"
  sourceLineNumber :: "int option"
  sourceColumnNumber :: "int option"
  name :: "string option"

definition newSourceMapEntry ::
  "int \<Rightarrow> int \<Rightarrow> string option \<Rightarrow> int option \<Rightarrow> int option \<Rightarrow> string option \<Rightarrow> SourceMapEntry" where
  "newSourceMapEntry l c u sl sc n =
     \<lparr>lineNumber = l, columnNumber = c, sourceUrl = u, sourceLineNumber = sl,
      sourceColumnNumber = sc, name = n\<rparr>"

text \<open>\<open>SourceMapEntry.compare\<close>.\<close>

definition compare :: "SourceMapEntry \<Rightarrow> SourceMapEntry \<Rightarrow> int" where
  "compare entry1 entry2 =
     (if lineNumber entry1 \<noteq> lineNumber entry2
      then lineNumber entry1 - lineNumber entry2
      else columnNumber entry1 - columnNumber entry2)"

text \<open>\<open>x || 0\<close> for an optional number, and \<open>a || b\<close> for two numbers.\<close>

definition orZero :: "int option \<Rightarrow> int" where
  "orZero x = (case x of None \<Rightarrow> 0 | Some v \<Rightarrow> v)"

definition jsOr :: "int \<Rightarrow> int \<Rightarrow> int" where
  "jsOr a b = (if a \<noteq> 0 then a else b)"

text \<open>The local function \<open>sourceMappingComparator\<close> of \<open>_reversedMappings\<close>.\<close>

definition sourceMappingComparator :: "SourceMapEntry \<Rightarrow> SourceMapEntry \<Rightarrow> int" where
  "sourceMappingComparator a b =
     (if sourceLineNumber a \<noteq> sourceLineNumber b
      then orZero (sourceLineNumber a) - orZero (sourceLineNumber b)
      else if sourceColumnNumber a \<noteq> sourceColumnNumber b
      then orZero (sourceColumnNumber a) - orZero (sourceColumnNumber b)
      else if lineNumber a \<noteq> lineNumber b
      then lineNumber a - lineNumber b
      else columnNumber a - columnNumber b)"

text \<open>
  \<open>Array.prototype.sort\<close> with a comparator is a stable sort: an element goes before the
  first element that the comparator does not put before it. For a comparator that is a
  total preorder the result does not depend on the algorithm; insertion is the model.
\<close>

fun sortInsert :: "('a \<Rightarrow> 'a \<Rightarrow> int) \<Rightarrow> 'a \<Rightarrow> 'a list \<Rightarrow> 'a list" where
  "sortInsert cmp x [] = [x]"
| "sortInsert cmp x (y # ys) = (if cmp x y \<le> 0 then x # y # ys else y # sortInsert cmp x ys)"

definition arraySort :: "('a \<Rightarrow> 'a \<Rightarrow> int) \<Rightarrow> 'a list \<Rightarrow> 'a list" where
  "arraySort cmp xs = foldr (sortInsert cmp) xs []"

text \<open>\<open>array.slice(first, last)\<close> for indices inside the array.\<close>

definition slice :: "'a list \<Rightarrow> nat \<Rightarrow> nat \<Rightarrow> 'a list" where
  "slice xs start stop = take (stop - start) (drop start xs)"

text \<open>
  \<open>upperBound\<close> and \<open>lowerBound\<close>. The indices \<open>l\<close>, \<open>r\<close> and \<open>m\<close> are natural numbers
  and \<open>(l + r) >> 1\<close> is the half of the sum, which it is for arrays of fewer than \<open>2 ^ 30\<close>
  elements. Every comparator of this file reads a field of its argument, so an element
  read out of range (\<open>undefined\<close>) raises \<open>TypeError\<close>.
\<close>

function upperBound_loop :: "'s list \<Rightarrow> ('s \<Rightarrow> int) \<Rightarrow> nat \<Rightarrow> nat \<Rightarrow> jsError + nat" where
  "upperBound_loop array comparator l r =
     (if l < r then
        (case jsIndex array (int ((l + r) div 2)) of
           None \<Rightarrow> Inl TypeError
         | Some s \<Rightarrow>
             if comparator s \<ge> 0
             then upperBound_loop array comparator ((l + r) div 2 + 1) r
             else upperBound_loop array comparator l ((l + r) div 2))
      else Inr r)"
  by pat_completeness auto
termination
  by (relation "measure (\<lambda>(array, comparator, l, r). r - l)") auto

declare upperBound_loop.simps [simp del]

definition upperBound :: "'s list \<Rightarrow> ('s \<Rightarrow> int) \<Rightarrow> jsError + nat" where
  "upperBound array comparator = upperBound_loop array comparator 0 (length array)"

function lowerBound_loop :: "'s list \<Rightarrow> ('s \<Rightarrow> int) \<Rightarrow> nat \<Rightarrow> nat \<Rightarrow> jsError + nat" where
  "lowerBound_loop array comparator l r =
     (if l < r then
        (case jsIndex array (int ((l + r) div 2)) of
           None \<Rightarrow> Inl TypeError
         | Some s \<Rightarrow>
             if comparator s > 0
             then lowerBound_loop array comparator ((l + r) div 2 + 1) r
             else lowerBound_loop array comparator l ((l + r) div 2))
      else Inr r)"
  by pat_completeness auto
termination
  by (relation "measure (\<lambda>(array, comparator, l, r). r - l)") auto

declare lowerBound_loop.simps [simp del]

definition lowerBound :: "'s list \<Rightarrow> ('s \<Rightarrow> int) \<Rightarrow> jsError + nat" where
  "lowerBound array comparator = lowerBound_loop array comparator 0 (length array)"

section \<open>sourceMap.ts: parsing the mappings string\<close>

datatype SourceMapV3Offset = SourceMapV3Offset (line: int) (column: int)

datatype SourceMapV3 =
  SourceMapV3 (version: int) (file_name: "string option") (sources: "string list")
    (sourcesContent: "string list option") (sections: "SourceMapV3Section list option")
    (mappings: string) (sourceRoot: "string option") (names: "string list option")
and SourceMapV3Section =
  SourceMapV3Section (offset: SourceMapV3Offset) (section_map: SourceMapV3)
    (section_url: "string option")

text \<open>The local variables of \<open>_parseMap\<close> that its loop updates.\<close>

record ParseState =
  stringCharIterator :: StringCharIterator
  curLineNumber :: int
  curColumnNumber :: int
  sourceIndex :: int
  curSourceLineNumber :: int
  curSourceColumnNumber :: int
  nameIndex :: int
  sourceURL :: "string option"

lemma peek_in_range: "peek it = [c] \<Longrightarrow> position it < length (string_of it)"
  by (simp add: peek_def charAt_def split: if_splits)

text \<open>The inner loop \<open>while (stringCharIterator.peek() === ';')\<close>.\<close>

function skipSemicolons :: "ParseState \<Rightarrow> ParseState" where
  "skipSemicolons st =
     (if peek (stringCharIterator st) = '';''
      then skipSemicolons
        (st\<lparr>curLineNumber := curLineNumber st + 1, curColumnNumber := 0,
            stringCharIterator := snd (next_char (stringCharIterator st))\<rparr>)
      else st)"
  by pat_completeness auto
termination
proof (relation "measure (\<lambda>st. length (string_of (stringCharIterator st))
    - position (stringCharIterator st))")
  fix st :: ParseState
  assume "peek (stringCharIterator st) = '';''"
  then have "position (stringCharIterator st) < length (string_of (stringCharIterator st))"
    by (rule peek_in_range)
  then show "(st\<lparr>curLineNumber := curLineNumber st + 1, curColumnNumber := 0,
            stringCharIterator := snd (next_char (stringCharIterator st))\<rparr>, st)
      \<in> measure (\<lambda>st. length (string_of (stringCharIterator st))
        - position (stringCharIterator st))"
    by (simp add: next_char_def)
qed simp

declare skipSemicolons.simps [simp del]

text \<open>
  One pass through the body of \<open>while (true)\<close>: \<open>None\<close> when the loop breaks, otherwise the
  updated variables and the entry pushed on \<open>mappings\<close>.
\<close>

definition parseStep ::
  "string list \<Rightarrow> string list \<Rightarrow> ParseState \<Rightarrow> (ParseState \<times> SourceMapEntry) option" where
  "parseStep srcs nms st =
     (let st1 = (if peek (stringCharIterator st) = '',''
                 then st\<lparr>stringCharIterator := snd (next_char (stringCharIterator st))\<rparr>
                 else skipSemicolons st)
      in if peek (stringCharIterator st) \<noteq> '','' \<and> \<not> hasNext (stringCharIterator st1)
         then None
         else
           let (d1, it1) = decodeVLQ (stringCharIterator st1);
               st2 = st1\<lparr>stringCharIterator := it1,
                        curColumnNumber := curColumnNumber st1 + d1\<rparr>
           in if \<not> hasNext it1 \<or> isSeparator (peek it1)
              then Some (st2, newSourceMapEntry (curLineNumber st2) (curColumnNumber st2)
                                 None None None None)
              else
                let (sourceIndexDelta, it2) = decodeVLQ it1;
                    st3 = (if sourceIndexDelta \<noteq> 0
                           then st2\<lparr>sourceIndex := sourceIndex st2 + sourceIndexDelta,
                                    sourceURL := jsIndex srcs (sourceIndex st2 + sourceIndexDelta)\<rparr>
                           else st2);
                    (d3, it3) = decodeVLQ it2;
                    (d4, it4) = decodeVLQ it3;
                    st4 = st3\<lparr>stringCharIterator := it4,
                             curSourceLineNumber := curSourceLineNumber st3 + d3,
                             curSourceColumnNumber := curSourceColumnNumber st3 + d4\<rparr>
                in if \<not> hasNext it4 \<or> isSeparator (peek it4)
                   then Some (st4, newSourceMapEntry (curLineNumber st4) (curColumnNumber st4)
                                     (sourceURL st4) (Some (curSourceLineNumber st4))
                                     (Some (curSourceColumnNumber st4)) None)
                   else
                     let (d5, it5) = decodeVLQ it4;
                         st5 = st4\<lparr>stringCharIterator := it5, nameIndex := nameIndex st4 + d5\<rparr>
                     in Some (st5, newSourceMapEntry (curLineNumber st5) (curColumnNumber st5)
                                     (sourceURL st5) (Some (curSourceLineNumber st5))
                                     (Some (curSourceColumnNumber st5))
                                     (jsIndex nms (nameIndex st5))))"

lemma base64Map_empty_string: "base64Map [] = None"
  by code_simp

lemma continues_in_range:
  assumes "continues (charAt s p)"
  shows "p < length s"
proof (rule ccontr)
  assume "\<not> p < length s"
  then have "charAt s p = []" by (simp add: charAt_def)
  with assms show False
    by (simp add: continues_def base64Map_empty_string jsBitAnd_def)
qed

lemma decodeVLQ_loop_consumes:
  "\<exists>n r. decodeVLQ_loop it res sh = (r, it\<lparr>position := position it + n + 1\<rparr>)
        \<and> (\<forall>i<n. continues (charAt (string_of it) (position it + i)))
        \<and> \<not> continues (charAt (string_of it) (position it + n))
        \<and> position it + n \<le> max (position it) (length (string_of it))"
proof (induction it res sh rule: decodeVLQ_loop.induct)
  case (1 it result shift)
  let ?s = "string_of it" and ?p = "position it"
  let ?it' = "snd (next_char it)"
  have it': "?it' = it\<lparr>position := ?p + 1\<rparr>" "fst (next_char it) = charAt ?s ?p"
    by (simp_all add: next_char_def)
  show ?case
  proof (cases "continues (charAt ?s ?p)")
    case True
    then have lt: "?p < length ?s" by (rule continues_in_range)
    from True have c: "jsBitAnd (base64Map (fst (next_char it))) VLQ_CONTINUATION_MASK \<noteq> 0"
      by (simp add: continues_def it')
    from "1.IH" [OF refl refl refl refl c]
    obtain n r where
      eq: "decodeVLQ_loop ?it'
             (result + jsShiftLeft (jsBitAnd (base64Map (fst (next_char it))) VLQ_BASE_MASK) shift)
             (shift + VLQ_BASE_SHIFT) = (r, ?it'\<lparr>position := position ?it' + n + 1\<rparr>)"
      and all: "\<forall>i<n. continues (charAt (string_of ?it') (position ?it' + i))"
      and stop: "\<not> continues (charAt (string_of ?it') (position ?it' + n))"
      and bound: "position ?it' + n \<le> max (position ?it') (length (string_of ?it'))"
      by blast
    have "decodeVLQ_loop it result shift = (r, it\<lparr>position := ?p + Suc n + 1\<rparr>)"
      using eq c by (subst decodeVLQ_loop.simps) (simp add: Let_def it')
    moreover have "\<forall>i<Suc n. continues (charAt ?s (?p + i))"
    proof (intro allI impI)
      fix i assume "i < Suc n"
      show "continues (charAt ?s (?p + i))"
      proof (cases i)
        case 0 with True show ?thesis by simp
      next
        case (Suc j)
        with \<open>i < Suc n\<close> all show ?thesis by (simp add: it')
      qed
    qed
    moreover have "\<not> continues (charAt ?s (?p + Suc n))"
      using stop by (simp add: it')
    moreover have "?p + Suc n \<le> max ?p (length ?s)"
      using bound lt by (simp add: it')
    ultimately show ?thesis by blast
  next
    case False
    then have c: "\<not> jsBitAnd (base64Map (fst (next_char it))) VLQ_CONTINUATION_MASK \<noteq> 0"
      by (simp add: continues_def it')
    have "decodeVLQ_loop it result shift =
        (result + jsShiftLeft (jsBitAnd (base64Map (charAt ?s ?p)) VLQ_BASE_MASK) shift,
         it\<lparr>position := ?p + 0 + 1\<rparr>)"
      using c by (subst decodeVLQ_loop.simps) (simp add: Let_def it')
    with False show ?thesis
      by (intro exI [where x = "0::nat"] exI [where x = "result + jsShiftLeft (jsBitAnd (base64Map (charAt ?s ?p)) VLQ_BASE_MASK) shift"]) simp
  qed
qed

lemma decodeVLQ_advances:
  "string_of (snd (decodeVLQ it)) = string_of it \<and> position it < position (snd (decodeVLQ it))"
proof -
  from decodeVLQ_loop_consumes [of it 0 0]
  obtain n r where "decodeVLQ_loop it 0 0 = (r, it\<lparr>position := position it + n + 1\<rparr>)"
    by blast
  then show ?thesis
    by (simp add: decodeVLQ_def Let_def)
qed

lemma skipSemicolons_advances:
  "string_of (stringCharIterator (skipSemicolons st)) = string_of (stringCharIterator st)
   \<and> position (stringCharIterator st) \<le> position (stringCharIterator (skipSemicolons st))"
proof (induction st rule: skipSemicolons.induct)
  case (1 st)
  show ?case
  proof (cases "peek (stringCharIterator st) = '';''")
    case True
    with "1.IH" show ?thesis
      by (subst (1 2) skipSemicolons.simps) (simp add: next_char_def)
  next
    case False
    then show ?thesis
      by (subst (1 2) skipSemicolons.simps) simp
  qed
qed

lemma parseStep_advances:
  assumes "parseStep srcs nms st = Some (st', e)"
  shows "string_of (stringCharIterator st') = string_of (stringCharIterator st)"
    and "position (stringCharIterator st) < position (stringCharIterator st')"
    and "position (stringCharIterator st) < length (string_of (stringCharIterator st))"
proof -
  define st1 where "st1 = (if peek (stringCharIterator st) = '',''
                 then st\<lparr>stringCharIterator := snd (next_char (stringCharIterator st))\<rparr>
                 else skipSemicolons st)"
  have s1: "string_of (stringCharIterator st1) = string_of (stringCharIterator st)"
    and p1: "position (stringCharIterator st) \<le> position (stringCharIterator st1)"
    using skipSemicolons_advances [of st] by (auto simp: st1_def next_char_def)
  have inside: "position (stringCharIterator st) < length (string_of (stringCharIterator st))"
  proof (cases "peek (stringCharIterator st) = '',''")
    case True
    then show ?thesis by (rule peek_in_range)
  next
    case False
    with assms have "hasNext (stringCharIterator st1)"
      by (auto simp: parseStep_def Let_def st1_def split: if_splits)
    with s1 p1 show ?thesis by (simp add: hasNext_def)
  qed
  note adv = decodeVLQ_advances
  obtain d1 it1 where v1: "decodeVLQ (stringCharIterator st1) = (d1, it1)" by fastforce
  obtain d2 it2 where v2: "decodeVLQ it1 = (d2, it2)" by fastforce
  obtain d3 it3 where v3: "decodeVLQ it2 = (d3, it3)" by fastforce
  obtain d4 it4 where v4: "decodeVLQ it3 = (d4, it4)" by fastforce
  obtain d5 it5 where v5: "decodeVLQ it4 = (d5, it5)" by fastforce
  have a1: "string_of it1 = string_of (stringCharIterator st)"
           "position (stringCharIterator st) < position it1"
    using adv [of "stringCharIterator st1"] v1 s1 p1 by simp_all
  have a2: "string_of it2 = string_of it1" "position it1 < position it2"
    using adv [of it1] v2 by simp_all
  have a3: "string_of it3 = string_of it2" "position it2 < position it3"
    using adv [of it2] v3 by simp_all
  have a4: "string_of it4 = string_of it3" "position it3 < position it4"
    using adv [of it3] v4 by simp_all
  have a5: "string_of it5 = string_of it4" "position it4 < position it5"
    using adv [of it4] v5 by simp_all
  have "stringCharIterator st' = it1 \<or> stringCharIterator st' = it4 \<or> stringCharIterator st' = it5"
    using assms unfolding parseStep_def st1_def [symmetric] Let_def
    by (auto simp: v1 v2 v3 v4 v5 split: if_splits)
  with a1 a2 a3 a4 a5
  show "string_of (stringCharIterator st') = string_of (stringCharIterator st)"
    and "position (stringCharIterator st) < position (stringCharIterator st')"
    by auto
  show "position (stringCharIterator st) < length (string_of (stringCharIterator st))"
    by (rule inside)
qed

text \<open>The loop \<open>while (true)\<close> of \<open>_parseMap\<close>, pushing on \<open>mappings\<close>.\<close>

function parseLoop ::
  "string list \<Rightarrow> string list \<Rightarrow> ParseState \<Rightarrow> SourceMapEntry list \<Rightarrow> SourceMapEntry list" where
  "parseLoop srcs nms st ms =
     (case parseStep srcs nms st of
        None \<Rightarrow> ms
      | Some (st', e) \<Rightarrow> parseLoop srcs nms st' (ms @ [e]))"
  by pat_completeness auto
termination
proof (relation "measure (\<lambda>(srcs, nms, st, ms). length (string_of (stringCharIterator st))
    - position (stringCharIterator st))")
  fix srcs nms :: "string list" and st :: ParseState and ms :: "SourceMapEntry list"
  fix x st' e
  assume "parseStep srcs nms st = Some x" "(st', e) = x"
  then have "parseStep srcs nms st = Some (st', e)" by simp
  from parseStep_advances [OF this]
  show "((srcs, nms, st', ms @ [e]), (srcs, nms, st, ms))
      \<in> measure (\<lambda>(srcs, nms, st, ms). length (string_of (stringCharIterator st))
        - position (stringCharIterator st))"
    by simp
qed simp

declare parseLoop.simps [simp del]

definition parseMap ::
  "SourceMapEntry list \<Rightarrow> SourceMapV3 \<Rightarrow> int \<Rightarrow> int \<Rightarrow> SourceMapEntry list" where
  "parseMap ms m l c =
     arraySort compare
       (parseLoop (sources m) (case names m of None \<Rightarrow> [] | Some ns \<Rightarrow> ns)
          \<lparr>stringCharIterator = newStringCharIterator (mappings m),
           curLineNumber = l, curColumnNumber = c, sourceIndex = 0,
           curSourceLineNumber = 0, curSourceColumnNumber = 0, nameIndex = 0,
           sourceURL = jsIndex (sources m) 0\<rparr>
          ms)"

section \<open>sourceMap.ts: the SourceMap class\<close>

record SourceInfo =
  content :: "string option"
  reverseMappings :: "SourceMapEntry list option"

text \<open>
  The private fields \<open>_json\<close>, \<open>_url\<close>, \<open>_mappings\<close>, \<open>_sourceInfos\<close> and \<open>_errors\<close>. A method
  that assigns a field returns the updated object.
\<close>

record SourceMap =
  p_json :: "SourceMapV3 option"
  p_url :: string
  p_mappings :: "SourceMapEntry list option"
  p_sourceInfos :: "string \<rightharpoonup> SourceInfo"
  p_errors :: "string list"

text \<open>
  \<open>_forEachSection\<close> calls back with the map itself at offset \<open>(0, 0)\<close>, or with each
  section's map at the section's offset: the list of the calls, in order.
\<close>

definition forEachSection :: "SourceMapV3 \<Rightarrow> (SourceMapV3 \<times> int \<times> int) list" where
  "forEachSection js =
     (case sections js of
        None \<Rightarrow> [(js, 0, 0)]
      | Some ss \<Rightarrow> map (\<lambda>s. (section_map s, line (offset s), column (offset s))) ss)"

definition endsWith :: "string \<Rightarrow> string \<Rightarrow> bool" where
  "endsWith s suffix = (length suffix \<le> length s \<and> drop (length s - length suffix) s = suffix)"

definition startsWith :: "string \<Rightarrow> string \<Rightarrow> bool" where
  "startsWith s prefix = (take (length prefix) s = prefix)"

text \<open>The callback of the constructor: the source root with its trailing slash.\<close>

definition sourceRootOf :: "SourceMapV3 \<Rightarrow> string" where
  "sourceRootOf m =
     (let r = (case sourceRoot m of None \<Rightarrow> [] | Some r \<Rightarrow> r)
      in if r \<noteq> [] \<and> \<not> endsWith r ''/'' then r @ ''/'' else r)"

text \<open>The assignments \<open>map.sources[i] = url\<close> of the callback, on the map.\<close>

definition rewriteSources :: "SourceMapV3 \<Rightarrow> SourceMapV3" where
  "rewriteSources m =
     SourceMapV3 (version m) (file_name m) (map (\<lambda>s. sourceRootOf m @ s) (sources m))
       (sourcesContent m) (sections m) (mappings m) (sourceRoot m) (names m)"

text \<open>The calls \<open>this._sourceInfos.set(url, new SourceInfo(source))\<close> of the callback.\<close>

definition registerSources :: "SourceMapV3 \<Rightarrow> (string \<rightharpoonup> SourceInfo) \<Rightarrow> (string \<rightharpoonup> SourceInfo)" where
  "registerSources m infos =
     fold (\<lambda>i acc. acc(sourceRootOf m @ sources m ! i \<mapsto>
              \<lparr>content = (case sourcesContent m of None \<Rightarrow> None | Some sc \<Rightarrow> jsIndex sc (int i)),
               reverseMappings = None\<rparr>))
       [0..<length (sources m)] infos"

definition unsupportedSectionUrl :: "string \<Rightarrow> string" where
  "unsupportedSectionUrl u =
     ''SourceMap \"'' @ u @ ''\" contains unsupported \"URL\" field in one of its sections.''"

definition newSourceMap :: "string \<Rightarrow> SourceMapV3 \<Rightarrow> SourceMap" where
  "newSourceMap u payload =
     \<lparr>p_json = Some
        (case sections payload of
           None \<Rightarrow> rewriteSources payload
         | Some ss \<Rightarrow>
             SourceMapV3 (version payload) (file_name payload) (sources payload)
               (sourcesContent payload)
               (Some (map (\<lambda>s. SourceMapV3Section (offset s) (rewriteSources (section_map s))
                                  (section_url s)) ss))
               (mappings payload) (sourceRoot payload) (names payload)),
      p_url = u,
      p_mappings = None,
      p_sourceInfos = fold (\<lambda>(m, l, c). registerSources m) (forEachSection payload) Map.empty,
      p_errors =
        (case sections payload of
           None \<Rightarrow> []
         | Some ss \<Rightarrow>
             if list_ex (\<lambda>s. section_url s \<noteq> None \<and> section_url s \<noteq> Some []) ss
             then [unsupportedSectionUrl u] else [])\<rparr>"

text \<open>
  \<open>mappings()\<close> parses every section into one shared array on the first call and keeps the
  array. \<open>this._json!\<close> is read only while \<open>_mappings\<close> is unset.
\<close>

definition SourceMap_mappings :: "SourceMap \<Rightarrow> jsError + (SourceMapEntry list \<times> SourceMap)" where
  "SourceMap_mappings sm =
     (case p_mappings sm of
        Some ms \<Rightarrow> Inr (ms, sm)
      | None \<Rightarrow>
          (case p_json sm of
             None \<Rightarrow> Inl TypeError
           | Some js \<Rightarrow>
               let ms = fold (\<lambda>(m, l, c) acc. parseMap acc m l c) (forEachSection js) []
               in Inr (ms, sm\<lparr>p_mappings := Some ms, p_json := None\<rparr>)))"

definition findEntry ::
  "SourceMap \<Rightarrow> int \<Rightarrow> int \<Rightarrow> jsError + (SourceMapEntry option \<times> SourceMap)" where
  "findEntry sm l c =
     (case SourceMap_mappings sm of
        Inl e \<Rightarrow> Inl e
      | Inr (ms, sm') \<Rightarrow>
          (case upperBound ms (\<lambda>entry. jsOr (l - lineNumber entry) (c - columnNumber entry)) of
             Inl e \<Rightarrow> Inl e
           | Inr index \<Rightarrow>
               Inr (if index \<noteq> 0 then jsIndex ms (int index - 1) else None, sm')))"

definition reversedMappings ::
  "SourceMap \<Rightarrow> string \<Rightarrow> jsError + (SourceMapEntry list \<times> SourceMap)" where
  "reversedMappings sm u =
     (case SourceMap_mappings sm of
        Inl e \<Rightarrow> Inl e
      | Inr (ms, sm') \<Rightarrow>
          (case p_sourceInfos sm' u of
             None \<Rightarrow> Inr ([], sm')
           | Some info \<Rightarrow>
               (case reverseMappings info of
                  Some rm \<Rightarrow> Inr (rm, sm')
                | None \<Rightarrow>
                    let rm = arraySort sourceMappingComparator
                               (filter (\<lambda>mapping. sourceUrl mapping = Some u) ms)
                    in Inr (rm, sm'\<lparr>p_sourceInfos :=
                                     (p_sourceInfos sm')(u \<mapsto> info\<lparr>reverseMappings := Some rm\<rparr>)\<rparr>))))"

definition findReverseEntry ::
  "SourceMap \<Rightarrow> string \<Rightarrow> int \<Rightarrow> int \<Rightarrow> jsError + (SourceMapEntry option \<times> SourceMap)" where
  "findReverseEntry sm u l c =
     (case reversedMappings sm u of
        Inl e \<Rightarrow> Inl e
      | Inr (ms, sm') \<Rightarrow>
          (case lowerBound ms (\<lambda>mapping. l - orZero (sourceLineNumber mapping)) of
             Inl e \<Rightarrow> Inl e
           | Inr first \<Rightarrow>
               (case upperBound ms (\<lambda>mapping. l - orZero (sourceLineNumber mapping)) of
                  Inl e \<Rightarrow> Inl e
                | Inr last' \<Rightarrow>
                    if first \<ge> length ms \<or> sourceLineNumber (ms ! first) \<noteq> Some l
                    then Inr (None, sm')
                    else
                      let columnMappings = slice ms first last'
                      in if columnMappings = [] then Inr (None, sm')
                         else
                           (case lowerBound columnMappings
                                   (\<lambda>mapping. c - orZero (sourceColumnNumber mapping)) of
                              Inl e \<Rightarrow> Inl e
                            | Inr index \<Rightarrow>
                                Inr (if index \<ge> length columnMappings
                                     then jsIndex columnMappings (int (length columnMappings) - 1)
                                     else jsIndex columnMappings (int index), sm')))))"

section \<open>sourceMap.ts: loading a source map\<close>

text \<open>
  \<open>SourceMap.load\<close> awaits \<open>utils.fetch(url)\<close> and calls \<open>JSON.parse\<close>. Both are outside the
  repository: they are parameters, \<open>Inl\<close> for a rejected promise or a thrown exception.
  \<open>JSON_parse\<close> stands for \<open>JSON.parse\<close> read as a \<open>SourceMapV3\<close>. The result is \<open>Inr\<close> of the
  returned value; \<open>Inl\<close> would be an exception that leaves \<open>load\<close>. The constructor, also
  inside the \<open>try\<close>, does not throw on a payload of the declared type.
\<close>

text \<open>\<open>s.indexOf(ch)\<close> and \<open>s.substring(i)\<close>; a negative start counts as \<open>0\<close>.\<close>

definition indexOf :: "string \<Rightarrow> char \<Rightarrow> int" where
  "indexOf s ch = (if ch \<in> set s then int (length (takeWhile (\<lambda>x. x \<noteq> ch) s)) else - 1)"

definition substring :: "string \<Rightarrow> int \<Rightarrow> string" where
  "substring s i = drop (nat i) s"

definition lineFeed :: char where
  "lineFeed = CHR 0x0A"

definition load ::
  "(string \<Rightarrow> jsError + string) \<Rightarrow> (string \<Rightarrow> jsError + SourceMapV3) \<Rightarrow> string
     \<Rightarrow> jsError + SourceMap option" where
  "load fetch JSON_parse u =
     (case fetch u of
        Inl e \<Rightarrow> Inr None
      | Inr body \<Rightarrow>
          let body' = (if take 3 body = '')]}''
                          then substring body (indexOf body lineFeed)
                          else body)
          in (case JSON_parse body' of
                Inl e \<Rightarrow> Inr None
              | Inr payload \<Rightarrow> Inr (Some (newSourceMap u payload))))"

section \<open>stackTrace.ts: stack frames and their ids\<close>

text \<open>
  The \<open>Location\<close> of a frame and the call frames of the protocol, with the fields that
  \<open>StackTrace\<close> reads. The thread's two conversions from call frames to locations belong to
  another class: they are the fields of \<open>Thread\<close>.
\<close>

record Location =
  loc_lineNumber :: int
  loc_columnNumber :: int
  loc_url :: string

type_synonym Scope = string

type_synonym StackTraceId = string

record RuntimeCallFrame =
  rt_functionName :: string
  rt_url :: string
  rt_lineNumber :: int
  rt_columnNumber :: int

record DebuggerCallFrame =
  dbg_functionName :: string
  dbg_callFrameId :: string
  dbg_scopeChain :: "Scope list"

datatype RuntimeStackTrace =
  RuntimeStackTrace (description: "string option") (callFrames: "RuntimeCallFrame list")
    (parent: "RuntimeStackTrace option") (parentId: "StackTraceId option")

record Thread =
  locationFromRuntimeCallFrame :: "RuntimeCallFrame \<Rightarrow> Location"
  locationFromDebuggerCallFrame :: "DebuggerCallFrame \<Rightarrow> Location"

record StackFrame =
  frame_id :: int
  frame_name :: string
  frame_location :: Location
  isAsyncSeparator :: "bool option"
  scopeChain :: "Scope list option"

text \<open>
  The private fields \<open>_thread\<close>, \<open>_frames\<close>, \<open>_frameById\<close> and \<open>_asyncStackTraceId\<close>. The static
  counter \<open>StackTrace._lastFrameId\<close> is shared by all stack traces of the process: every
  function that allocates an id takes the counter and returns it.
\<close>

record StackTrace =
  p_thread :: Thread
  p_frames :: "StackFrame list"
  p_frameById :: "int \<rightharpoonup> StackFrame"
  p_asyncStackTraceId :: "StackTraceId option"

definition newStackTrace :: "Thread \<Rightarrow> StackTrace" where
  "newStackTrace thread =
     \<lparr>p_thread = thread, p_frames = [], p_frameById = Map.empty, p_asyncStackTraceId = None\<rparr>"

text \<open>\<open>s || d\<close> for a string: the empty string is falsy.\<close>

definition orString :: "string \<Rightarrow> string \<Rightarrow> string" where
  "orString s d = (if s \<noteq> [] then s else d)"

definition appendFrame :: "StackFrame \<Rightarrow> StackTrace \<Rightarrow> StackTrace" where
  "appendFrame f st =
     st\<lparr>p_frames := p_frames st @ [f], p_frameById := (p_frameById st)(frame_id f \<mapsto> f)\<rparr>"

definition frame :: "StackTrace \<Rightarrow> int \<Rightarrow> StackFrame option" where
  "frame st frameId = p_frameById st frameId"

text \<open>The frame that \<open>_appendStackTrace\<close> and \<open>fromRuntime\<close> build for a runtime call frame.\<close>

definition runtimeFrame :: "Thread \<Rightarrow> int \<Rightarrow> RuntimeCallFrame \<Rightarrow> StackFrame" where
  "runtimeFrame thread i callFrame =
     \<lparr>frame_id = i, frame_name = orString (rt_functionName callFrame) ''<anonymous>'',
      frame_location = locationFromRuntimeCallFrame thread callFrame,
      isAsyncSeparator = None, scopeChain = None\<rparr>"

definition debuggerFrame :: "Thread \<Rightarrow> int \<Rightarrow> DebuggerCallFrame \<Rightarrow> StackFrame" where
  "debuggerFrame thread i callFrame =
     \<lparr>frame_id = i, frame_name = orString (dbg_functionName callFrame) ''<anonymous>'',
      frame_location = locationFromDebuggerCallFrame thread callFrame,
      isAsyncSeparator = None, scopeChain = Some (dbg_scopeChain callFrame)\<rparr>"

definition separatorFrame :: "int \<Rightarrow> string option \<Rightarrow> StackFrame" where
  "separatorFrame i d =
     \<lparr>frame_id = i,
      frame_name = orString (case d of None \<Rightarrow> [] | Some s \<Rightarrow> s) ''async'',
      frame_location = \<lparr>loc_lineNumber = 1, loc_columnNumber = 1, loc_url = []\<rparr>,
      isAsyncSeparator = Some True, scopeChain = None\<rparr>"

text \<open>
  The body of the loop \<open>while (stackTrace)\<close> of \<open>_appendStackTrace\<close> for one stack trace of
  the chain, on the pair of the stack trace object and the counter \<open>_lastFrameId\<close>.
\<close>

definition appendStackTrace_body ::
  "string option \<Rightarrow> RuntimeCallFrame list \<Rightarrow> StackTraceId option \<Rightarrow> StackTrace \<times> int
     \<Rightarrow> StackTrace \<times> int" where
  "appendStackTrace_body d cfs pid a =
     (let cfs' = (if d = Some ''async function'' \<and> cfs \<noteq> [] then tl cfs else cfs);
          b = (if cfs' \<noteq> []
               then fold (\<lambda>callFrame (s, n).
                            (appendFrame (runtimeFrame (p_thread s) (n + 1) callFrame) s, n + 1))
                      cfs' (appendFrame (separatorFrame (snd a + 1) d) (fst a), snd a + 1)
               else a)
      in case pid of None \<Rightarrow> b | Some i \<Rightarrow> ((fst b)\<lparr>p_asyncStackTraceId := Some i\<rparr>, snd b))"

text \<open>\<open>_appendStackTrace\<close>: the loop walks the \<open>parent\<close> chain.\<close>

fun appendStackTrace :: "RuntimeStackTrace \<Rightarrow> StackTrace \<times> int \<Rightarrow> StackTrace \<times> int" where
  "appendStackTrace (RuntimeStackTrace d cfs p pid) a =
     (case p of
        None \<Rightarrow> appendStackTrace_body d cfs pid a
      | Some t \<Rightarrow> appendStackTrace t (appendStackTrace_body d cfs pid a))"

definition fromRuntime :: "Thread \<Rightarrow> RuntimeStackTrace \<Rightarrow> int \<Rightarrow> StackTrace \<times> int" where
  "fromRuntime thread stack lastFrameId =
     (let (result, n) =
            fold (\<lambda>callFrame (s, n). (s\<lparr>p_frames := p_frames s @ [runtimeFrame thread (n + 1) callFrame]\<rparr>, n + 1))
              (callFrames stack) (newStackTrace thread, lastFrameId)
      in case parentId stack of
           Some i \<Rightarrow> (result\<lparr>p_asyncStackTraceId := Some i\<rparr>, n)
         | None \<Rightarrow>
             (case parent stack of
                Some t \<Rightarrow> appendStackTrace t (result, n)
              | None \<Rightarrow> (result, n)))"

definition fromDebugger ::
  "Thread \<Rightarrow> DebuggerCallFrame list \<Rightarrow> RuntimeStackTrace option \<Rightarrow> StackTraceId option \<Rightarrow> int
     \<Rightarrow> StackTrace \<times> int" where
  "fromDebugger thread frames parent' parentId' lastFrameId =
     (let (result, n) =
            fold (\<lambda>callFrame (s, n). (appendFrame (debuggerFrame thread (n + 1) callFrame) s, n + 1))
              frames (newStackTrace thread, lastFrameId)
      in case parentId' of
           Some i \<Rightarrow> (result\<lparr>p_asyncStackTraceId := Some i\<rparr>, n)
         | None \<Rightarrow>
             (case parent' of
                Some t \<Rightarrow> appendStackTrace t (result, n)
              | None \<Rightarrow> (result, n)))"

text \<open>A thread and a call frame for examples.\<close>

definition exampleThread :: Thread where
  "exampleThread =
     \<lparr>locationFromRuntimeCallFrame =
        (\<lambda>cf. \<lparr>loc_lineNumber = rt_lineNumber cf + 1, loc_columnNumber = rt_columnNumber cf + 1,
               loc_url = rt_url cf\<rparr>),
      locationFromDebuggerCallFrame =
        (\<lambda>cf. \<lparr>loc_lineNumber = 1, loc_columnNumber = 1, loc_url = []\<rparr>)\<rparr>"

definition exampleCallFrame :: RuntimeCallFrame where
  "exampleCallFrame =
     \<lparr>rt_functionName = ''main'', rt_url = ''http://localhost/app.js'', rt_lineNumber = 4,
      rt_columnNumber = 2\<rparr>"

text \<open>
  From one state of a stack trace and the counter to a later one: the counter does not
  decrease, the ids up to the old counter keep their meaning, and every frame added since
  has a new id under which \<open>frame\<close> finds it.
\<close>

definition grows :: "StackTrace \<times> int \<Rightarrow> StackTrace \<times> int \<Rightarrow> bool" where
  "grows a b \<longleftrightarrow>
     snd a \<le> snd b \<and> p_thread (fst b) = p_thread (fst a)
     \<and> (\<forall>i \<le> snd a. p_frameById (fst b) i = p_frameById (fst a) i)
     \<and> (\<exists>new. p_frames (fst b) = p_frames (fst a) @ new
           \<and> (\<forall>f \<in> set new. snd a < frame_id f \<and> frame_id f \<le> snd b
                 \<and> p_frameById (fst b) (frame_id f) = Some f))"

text \<open>The frames that the first loop of \<open>fromRuntime\<close> pushes, from the counter \<open>n\<close>.\<close>

fun directFrames :: "Thread \<Rightarrow> int \<Rightarrow> RuntimeCallFrame list \<Rightarrow> StackFrame list" where
  "directFrames thread n [] = []"
| "directFrames thread n (cf # cfs) = runtimeFrame thread (n + 1) cf # directFrames thread (n + 1) cfs"

section \<open>breakpoints.ts: breakpoints and their manager\<close>

text \<open>
  The protocol types with the fields that the code reads. A \<open>UiLocation\<close> is a \<open>LineColumn\<close>
  with a source, as in the source, where it is passed for a \<open>LineColumn\<close>.
\<close>

type_synonym BreakpointId = string

type_synonym CdpLocation = "string \<times> int \<times> int"

record DapSource =
  ds_path :: "string option"
  ds_sourceReference :: "int option"

record SourceBreakpoint =
  sb_line :: int
  sb_column :: "int option"
  sb_condition :: "string option"
  sb_logMessage :: "string option"

record SetBreakpointsParams =
  params_source :: DapSource
  params_breakpoints :: "SourceBreakpoint list option"

record DapBreakpoint =
  dap_id :: "int option"
  dap_verified :: bool
  dap_message :: string

record LineColumn =
  lc_lineNumber :: int
  lc_columnNumber :: int

record Source =
  src_url :: string
  src_absolutePath :: string
  src_sourceReference :: int

record UiLocation = LineColumn +
  ui_source :: Source

record Script =
  script_url :: string
  script_scriptId :: string
  script_source :: Source

record WorkspaceLocation = LineColumn +
  ws_absolutePath :: string

text \<open>
  The commands sent to the runtime. \<open>urlToRegex\<close> and the conversion of the position to the
  runtime's offsets are outside the repository's sources given here: a command keeps the url
  and the position it was made from.
\<close>

datatype CdpCommand =
  SetBreakpointByUrl string LineColumn "string option"
| SetBreakpoint string LineColumn "string option"
| RemoveBreakpoint BreakpointId

text \<open>
  An element of \<open>_activeSetters\<close> is the promise of the function that awaits the answer to
  one \<open>setBreakpointByUrl\<close> or \<open>setBreakpoint\<close> command and then calls \<open>breakpointResolved\<close>. It
  is named by the number of its command among the commands sent; it settles when the command
  is answered.
\<close>

type_synonym Setter = nat

text \<open>
  What the manager uses of the source container, the thread, the predictor and the
  utilities, none of which is in the sources given: \<open>env_source\<close> is
  \<open>_sourceContainer.source\<close>, and \<open>env_predictedResolvedLocations\<close> is \<open>None\<close> when the manager has no predictor.
\<close>

record Env =
  env_source :: "DapSource \<Rightarrow> Source option"
  env_currentSiblingUiLocations :: "UiLocation \<Rightarrow> Source option \<Rightarrow> UiLocation list"
  env_absolutePathToUrl :: "string \<Rightarrow> string option"
  env_predictedResolvedLocations :: "(string \<Rightarrow> int \<Rightarrow> int \<Rightarrow> WorkspaceLocation list) option"
  env_scriptsFromSource :: "Source \<Rightarrow> Script list"
  env_rewriteLogPoint :: "string \<Rightarrow> string"
  env_platformPathToPreferredCase :: "string option \<Rightarrow> string option"

text \<open>
  The fields of a \<open>Breakpoint\<close>. \<open>_setUrlLocations\<close> holds strings
  \<open>line + ':' + column + ':' + url\<close>; a string is modelled by the triple it is built from,
  which it determines. \<open>_disposables\<close> is never added to and is left out. The sets are lists
  in insertion order, as a JavaScript \<open>Set\<close> iterates.
\<close>

record Breakpoint =
  b_dapId :: "int option"
  b_source :: DapSource
  b_condition :: "string option"
  b_lineColumn :: LineColumn
  b_activeSetters :: "Setter list"
  b_resolvedBreakpoints :: "BreakpointId list"
  b_resolvedUiLocation :: "UiLocation option"
  b_setUrlLocations :: "(int \<times> int \<times> string) set"

text \<open>
  The manager. \<open>Breakpoint\<close> objects are shared between the lists of \<open>_byPath\<close> and \<open>_byRef\<close>
  and the index \<open>_resolvedBreakpoints\<close>: an object is a reference into \<open>m_store\<close>, and
  \<open>m_nextRef\<close> is the next unused reference. \<open>m_thread\<close> tells whether \<open>_thread\<close> is set.
  \<open>m_cdp\<close> is the list of the commands sent so far.
\<close>

type_synonym ref = nat

record BreakpointManager =
  m_byPath :: "string \<rightharpoonup> ref list"
  m_byRef :: "int option \<rightharpoonup> ref list"
  m_thread :: bool
  m_resolvedBreakpoints :: "BreakpointId \<rightharpoonup> ref"
  m_totalBreakpointsCount :: int
  m_predictorDisabledForTest :: bool
  m_store :: "ref \<Rightarrow> Breakpoint"
  m_nextRef :: ref
  m_cdp :: "CdpCommand list"

definition truthy :: "string option \<Rightarrow> bool" where
  "truthy s = (s \<noteq> None \<and> s \<noteq> Some [])"

definition setAdd :: "'a \<Rightarrow> 'a list \<Rightarrow> 'a list" where
  "setAdd x xs = (if x \<in> set xs then xs else xs @ [x])"

definition updateBreakpoint :: "ref \<Rightarrow> (Breakpoint \<Rightarrow> Breakpoint) \<Rightarrow> BreakpointManager \<Rightarrow> BreakpointManager" where
  "updateBreakpoint r f m = m\<lparr>m_store := (m_store m)(r := f (m_store m r))\<rparr>"

definition kLogPointUrl :: string where
  "kLogPointUrl = ''logpoint.cdp''"

text \<open>The constructor of \<open>Breakpoint\<close>.\<close>

definition newBreakpoint :: "Env \<Rightarrow> int option \<Rightarrow> DapSource \<Rightarrow> SourceBreakpoint \<Rightarrow> Breakpoint" where
  "newBreakpoint env dapId source params =
     (let c1 = (if truthy (sb_logMessage params)
                then Some (env_rewriteLogPoint env (case sb_logMessage params of Some s \<Rightarrow> s | None \<Rightarrow> [])
                           @ [lineFeed] @ ''//# sourceURL='' @ kLogPointUrl)
                else None);
          c2 = (if truthy (sb_condition params)
                then (if truthy c1
                      then Some (''('' @ (case sb_condition params of Some s \<Rightarrow> s | None \<Rightarrow> [])
                                 @ '') && '' @ (case c1 of Some s \<Rightarrow> s | None \<Rightarrow> []))
                      else sb_condition params)
                else c1)
      in \<lparr>b_dapId = dapId, b_source = source, b_condition = c2,
          b_lineColumn = \<lparr>lc_lineNumber = sb_line params,
                           lc_columnNumber = (case sb_column params of
                                                None \<Rightarrow> 1 | Some c \<Rightarrow> if c \<noteq> 0 then c else 1)\<rparr>,
          b_activeSetters = [], b_resolvedBreakpoints = [], b_resolvedUiLocation = None,
          b_setUrlLocations = {}\<rparr>)"

definition toProvisionalDap :: "Breakpoint \<Rightarrow> DapBreakpoint" where
  "toProvisionalDap b = \<lparr>dap_id = b_dapId b, dap_verified = False, dap_message = ''Unbound breakpoint''\<rparr>"

text \<open>
  \<open>breakpointResolved\<close> up to its first \<open>await\<close>: it registers the runtime's id with the
  breakpoint and in the manager's index. The rest, which sets \<open>_resolvedUiLocation\<close> and
  notifies the client, runs as a task of its own and touches no id.
\<close>

definition breakpointResolved :: "ref \<Rightarrow> BreakpointId \<Rightarrow> BreakpointManager \<Rightarrow> BreakpointManager" where
  "breakpointResolved r cdpId m =
     (updateBreakpoint r (\<lambda>b. b\<lparr>b_resolvedBreakpoints := setAdd cdpId (b_resolvedBreakpoints b)\<rparr>) m)
       \<lparr>m_resolvedBreakpoints := (m_resolvedBreakpoints m)(cdpId \<mapsto> r)\<rparr>"

text \<open>
  \<open>_setByUrl\<close> and \<open>_setByScriptId\<close> up to \<open>await activeSetter\<close>: the command is sent and
  its setter is added to \<open>_activeSetters\<close>. The caller of \<open>_setByUrl\<close> has a thread.
\<close>

definition addSetter :: "ref \<Rightarrow> CdpCommand \<Rightarrow> BreakpointManager \<Rightarrow> BreakpointManager" where
  "addSetter r command m =
     (updateBreakpoint r
        (\<lambda>b. b\<lparr>b_activeSetters := b_activeSetters b @ [length (m_cdp m)]\<rparr>) m)
       \<lparr>m_cdp := m_cdp m @ [command]\<rparr>"

definition urlLocation :: "string \<Rightarrow> 'a LineColumn_scheme \<Rightarrow> int \<times> int \<times> string" where
  "urlLocation u lineColumn = (lc_lineNumber lineColumn, lc_columnNumber lineColumn, u)"

definition setByUrl :: "ref \<Rightarrow> string \<Rightarrow> 'a LineColumn_scheme \<Rightarrow> BreakpointManager \<Rightarrow> BreakpointManager" where
  "setByUrl r u lineColumn m =
     (if urlLocation u lineColumn \<in> b_setUrlLocations (m_store m r) then m
      else addSetter r
             (SetBreakpointByUrl u (LineColumn.truncate lineColumn) (b_condition (m_store m r)))
             (updateBreakpoint r
                (\<lambda>b. b\<lparr>b_setUrlLocations := insert (urlLocation u lineColumn) (b_setUrlLocations b)\<rparr>) m))"

text \<open>
  What the promise of \<open>_setByScriptId\<close> does: it resolves at once (the url and position were
  already set by url), it resolves when its setter has settled, or it is rejected.
  \<open>thread.defaultScriptOffset()\<close> raises \<open>TypeError\<close> when \<open>thread\<close> is \<open>undefined\<close>; no command has
  been sent then.
\<close>

datatype Outcome = Skipped | Awaits Setter | Throws jsError

definition setByScriptId ::
  "bool \<Rightarrow> ref \<Rightarrow> Script \<Rightarrow> UiLocation \<Rightarrow> BreakpointManager \<Rightarrow> Outcome \<times> BreakpointManager" where
  "setByScriptId thread r script lineColumn m =
     (if script_url script \<noteq> [] \<and> urlLocation (script_url script) lineColumn \<in> b_setUrlLocations (m_store m r)
      then (Skipped, m)
      else if \<not> thread then (Throws TypeError, m)
      else (Awaits (length (m_cdp m)),
            addSetter r
              (SetBreakpoint (script_scriptId script) (LineColumn.truncate lineColumn)
                 (b_condition (m_store m r))) m))"

text \<open>A loop that calls \<open>_setByScriptId\<close> for each element and collects the promises.\<close>

fun setAllByScriptId ::
  "bool \<Rightarrow> ref \<Rightarrow> ('a \<Rightarrow> Script \<times> UiLocation) \<Rightarrow> 'a list \<Rightarrow> BreakpointManager
     \<Rightarrow> Outcome list \<times> BreakpointManager" where
  "setAllByScriptId thread r target [] m = ([], m)"
| "setAllByScriptId thread r target (x # xs) m =
     (let (outcome, m1) = setByScriptId thread r (fst (target x)) (snd (target x)) m;
          (outcomes, m2) = setAllByScriptId thread r target xs m1
      in (outcome # outcomes, m2))"

definition setByPath :: "Env \<Rightarrow> ref \<Rightarrow> BreakpointManager \<Rightarrow> BreakpointManager" where
  "setByPath env r m =
     (let b = m_store m r;
          u = (case env_source env (b_source b) of
                 Some source \<Rightarrow> Some (src_url source)
               | None \<Rightarrow> (if truthy (ds_path (b_source b))
                          then env_absolutePathToUrl env (case ds_path (b_source b) of Some p \<Rightarrow> p | None \<Rightarrow> [])
                          else None))
      in case u of
           None \<Rightarrow> m
         | Some u' \<Rightarrow> if u' = [] then m else setByUrl r u' (b_lineColumn b) m)"

definition setPredicted :: "Env \<Rightarrow> ref \<Rightarrow> BreakpointManager \<Rightarrow> BreakpointManager" where
  "setPredicted env r m =
     (let b = m_store m r in
      case env_predictedResolvedLocations env of
        None \<Rightarrow> m
      | Some predict \<Rightarrow>
          if \<not> truthy (ds_path (b_source b)) then m
          else fold (\<lambda>workspaceLocation m'.
                       case env_absolutePathToUrl env (ws_absolutePath workspaceLocation) of
                         None \<Rightarrow> m'
                       | Some u \<Rightarrow> if u = [] then m' else setByUrl r u workspaceLocation m')
                 (predict (case ds_path (b_source b) of Some p \<Rightarrow> p | None \<Rightarrow> [])
                    (lc_lineNumber (b_lineColumn b)) (lc_columnNumber (b_lineColumn b)))
                 m)"

definition setByUiLocation :: "Env \<Rightarrow> ref \<Rightarrow> UiLocation \<Rightarrow> BreakpointManager \<Rightarrow> BreakpointManager" where
  "setByUiLocation env r uiLocation m =
     snd (setAllByScriptId True r (\<lambda>script. (script, uiLocation))
            (env_scriptsFromSource env (ui_source uiLocation)) m)"

text \<open>
  \<open>set(thread)\<close> up to \<open>await Promise.all(promises)\<close>: every setter of the call is created.
  Nothing awaits the promise of \<open>set\<close>; what follows the \<open>await\<close> notifies the client.
\<close>

definition setBreakpoint :: "Env \<Rightarrow> ref \<Rightarrow> BreakpointManager \<Rightarrow> BreakpointManager" where
  "setBreakpoint env r m =
     (let m1 = setPredicted env r (setByPath env r m);
          b = m_store m1 r
      in case env_source env (b_source b) of
           None \<Rightarrow> m1
         | Some source \<Rightarrow>
             fold (setByUiLocation env r)
               (env_currentSiblingUiLocations env
                  \<lparr>lc_lineNumber = lc_lineNumber (b_lineColumn b),
                   lc_columnNumber = lc_columnNumber (b_lineColumn b), ui_source = source\<rparr> None)
               m1)"

text \<open>
  \<open>updateForSourceMap\<close> up to \<open>await Promise.all(promises)\<close>: the locations that it will
  return, the promises that it awaits, and the manager with the setters created. \<open>thread\<close>
  tells whether the argument \<open>thread\<close> is defined.
\<close>

definition updateForSourceMap ::
  "Env \<Rightarrow> bool \<Rightarrow> ref \<Rightarrow> Script \<Rightarrow> BreakpointManager
     \<Rightarrow> (UiLocation list \<times> Outcome list) \<times> BreakpointManager" where
  "updateForSourceMap env thread r script m =
     (let b = m_store m r in
      case env_source env (b_source b) of
        None \<Rightarrow> (([], []), m)
      | Some source \<Rightarrow>
          let uiLocations = env_currentSiblingUiLocations env
                  \<lparr>lc_lineNumber = lc_lineNumber (b_lineColumn b),
                   lc_columnNumber = lc_columnNumber (b_lineColumn b), ui_source = source\<rparr>
                  (Some (script_source script));
              (promises, m') = setAllByScriptId thread r (\<lambda>uiLocation. (script, uiLocation)) uiLocations m
          in ((uiLocations, promises), m'))"

text \<open>
  \<open>remove()\<close> up to its first \<open>await\<close>: \<open>_disposables\<close> is empty, and the promises awaited are
  the elements of \<open>_activeSetters\<close> at this moment.
\<close>

datatype RemovePhase =
  AwaitSetters "Setter list"
| AwaitRemovals "nat list"
| RemoveDone
| RemoveThrew jsError

record RemoveTask =
  rt_breakpoint :: ref
  rt_phase :: RemovePhase

definition removeStart :: "ref \<Rightarrow> BreakpointManager \<Rightarrow> RemoveTask \<times> BreakpointManager" where
  "removeStart r m =
     (\<lparr>rt_breakpoint = r, rt_phase = AwaitSetters (b_activeSetters (m_store m r))\<rparr>,
      updateBreakpoint r (\<lambda>b. b\<lparr>b_resolvedUiLocation := None\<rparr>) m)"

text \<open>
  \<open>remove()\<close> from its first \<open>await\<close> to its second: the ids recorded at this moment are taken
  out of the manager's index and \<open>removeBreakpoint\<close> is sent for each. With an id to remove
  and no thread, \<open>this._manager._thread!.cdp()\<close> raises \<open>TypeError\<close> after the first id has left
  the index.
\<close>

definition removeIds :: "ref \<Rightarrow> BreakpointManager \<Rightarrow> RemovePhase \<times> BreakpointManager" where
  "removeIds r m =
     (let ids = b_resolvedBreakpoints (m_store m r) in
      if ids \<noteq> [] \<and> \<not> m_thread m
      then (RemoveThrew TypeError, m\<lparr>m_resolvedBreakpoints := (m_resolvedBreakpoints m)(hd ids := None)\<rparr>)
      else (AwaitRemovals [length (m_cdp m) ..< length (m_cdp m) + length ids],
            (updateBreakpoint r (\<lambda>b. b\<lparr>b_resolvedBreakpoints := [], b_setUrlLocations := {}\<rparr>) m)
              \<lparr>m_resolvedBreakpoints := fold (\<lambda>i index. index(i := None)) ids (m_resolvedBreakpoints m),
               m_cdp := m_cdp m @ map RemoveBreakpoint ids\<rparr>))"

text \<open>
  A call of \<open>setBreakpoints\<close>: its arguments, the breakpoints it made, the \<open>remove()\<close> calls it
  awaits, and where it stands.
\<close>

datatype CallPhase =
  AwaitPredictor
| AwaitRemoves
| Returned "DapBreakpoint list"
| Rejected jsError

record Call =
  call_params :: SetBreakpointsParams
  call_ids :: "int list"
  call_breakpoints :: "ref list"
  call_previous :: "ref list option"
  call_removes :: "RemoveTask list"
  call_phase :: CallPhase

fun removeAllStart :: "ref list \<Rightarrow> BreakpointManager \<Rightarrow> RemoveTask list \<times> BreakpointManager" where
  "removeAllStart [] m = ([], m)"
| "removeAllStart (r # rs) m =
     (let (task, m1) = removeStart r m;
          (tasks, m2) = removeAllStart rs m1
      in (task # tasks, m2))"

text \<open>
  \<open>setBreakpoints\<close> after \<open>Promise.all(previous.map(b => b.remove()))\<close>: the breakpoints of the
  call are set when there is a thread, and the call returns.
\<close>

definition callFinish :: "Env \<Rightarrow> Call \<Rightarrow> BreakpointManager \<Rightarrow> Call \<times> BreakpointManager" where
  "callFinish env call m =
     (let m1 = m\<lparr>m_totalBreakpointsCount := m_totalBreakpointsCount m + int (length (call_breakpoints call))\<rparr>;
          m2 = (if m_thread m1 then fold (setBreakpoint env) (call_breakpoints call) m1 else m1)
      in (call\<lparr>call_phase := Returned (map (\<lambda>r. toProvisionalDap (m_store m2 r)) (call_breakpoints call))\<rparr>,
          m2))"

text \<open>
  \<open>setBreakpoints\<close> from the new breakpoints to \<open>await Promise.all(...)\<close>. \<open>ids[index]\<close> is
  \<open>undefined\<close> past the end of \<open>ids\<close>. An empty list of previous breakpoints is truthy: the call
  awaits then too. Without a list it goes on at once.
\<close>

definition callReplace :: "Env \<Rightarrow> Call \<Rightarrow> BreakpointManager \<Rightarrow> Call \<times> BreakpointManager" where
  "callReplace env call m =
     (let source = params_source (call_params call);
          inBreakpoints = (case params_breakpoints (call_params call) of None \<Rightarrow> [] | Some bs \<Rightarrow> bs);
          breakpoints = [m_nextRef m ..< m_nextRef m + length inBreakpoints];
          m1 = m\<lparr>m_store := (\<lambda>r. if m_nextRef m \<le> r \<and> r < m_nextRef m + length inBreakpoints
                                  then newBreakpoint env (jsIndex (call_ids call) (int (r - m_nextRef m))) source
                                         (inBreakpoints ! (r - m_nextRef m))
                                  else m_store m r),
                  m_nextRef := m_nextRef m + length inBreakpoints\<rparr>;
          previous = (if truthy (ds_path source)
                      then m_byPath m1 (case ds_path source of Some p \<Rightarrow> p | None \<Rightarrow> [])
                      else m_byRef m1 (ds_sourceReference source));
          m2 = (if truthy (ds_path source)
                then m1\<lparr>m_byPath := (m_byPath m1)((case ds_path source of Some p \<Rightarrow> p | None \<Rightarrow> []) \<mapsto> breakpoints)\<rparr>
                else m1\<lparr>m_byRef := (m_byRef m1)(ds_sourceReference source \<mapsto> breakpoints)\<rparr>);
          call1 = call\<lparr>call_breakpoints := breakpoints, call_previous := previous\<rparr>
      in case previous of
           None \<Rightarrow> callFinish env call1 m2
         | Some rs \<Rightarrow>
             let (tasks, m3) = removeAllStart rs
                                 (m2\<lparr>m_totalBreakpointsCount := m_totalBreakpointsCount m2 - int (length rs)\<rparr>)
             in (call1\<lparr>call_removes := tasks, call_phase := AwaitRemoves\<rparr>, m3))"

text \<open>
  \<open>setBreakpoints\<close> from its start: the path of the source is put in the preferred case, and
  with a predictor that is not disabled the call awaits its prediction first.
\<close>

definition callStart ::
  "Env \<Rightarrow> SetBreakpointsParams \<Rightarrow> int list \<Rightarrow> BreakpointManager \<Rightarrow> Call \<times> BreakpointManager" where
  "callStart env params ids m =
     (let source = (params_source params)\<lparr>ds_path := env_platformPathToPreferredCase env (ds_path (params_source params))\<rparr>;
          call = \<lparr>call_params = params\<lparr>params_source := source\<rparr>, call_ids = ids, call_breakpoints = [],
                  call_previous = None, call_removes = [], call_phase = AwaitPredictor\<rparr>
      in if \<not> m_predictorDisabledForTest m \<and> env_predictedResolvedLocations env \<noteq> None
         then (call, m)
         else callReplace env call m)"

text \<open>
  The handler that the constructor of the manager installs for scripts with a source map, up
  to \<open>await Promise.all(todo)\<close>: for each call of \<open>updateForSourceMap\<close> the locations that it will
  return and the promises that it awaits.
\<close>

definition breakpointsOfSource :: "BreakpointManager \<Rightarrow> Source \<Rightarrow> ref list" where
  "breakpointsOfSource m source =
     (case (if src_absolutePath source \<noteq> [] then m_byPath m (src_absolutePath source) else None) of
        None \<Rightarrow> [] | Some rs \<Rightarrow> rs)
     @ (case m_byRef m (Some (src_sourceReference source)) of None \<Rightarrow> [] | Some rs \<Rightarrow> rs)"

type_synonym Todo = "(UiLocation list \<times> Outcome list) list"

definition handlerStart ::
  "Env \<Rightarrow> Script \<Rightarrow> Source list \<Rightarrow> BreakpointManager \<Rightarrow> Todo \<times> BreakpointManager" where
  "handlerStart env script srcs m =
     fold (\<lambda>source (todo, m1).
             fold (\<lambda>r (todo', m2).
                     let (promise, m3) = updateForSourceMap env (m_thread m2) r script m2
                     in (todo' @ [promise], m3))
               (breakpointsOfSource m1 source) (todo, m1))
       srcs ([], m)"

text \<open>
  The handler after \<open>await Promise.all(todo)\<close>, when the commands in \<open>answered\<close> have been
  answered: it is rejected when a promise is, it waits while a setter has not settled, and
  else it returns \<open>remainPaused\<close>.
\<close>

datatype HandlerPhase =
  HandlerAwaits
| HandlerReturned bool
| HandlerRejected jsError

definition thrown :: "Outcome list \<Rightarrow> jsError option" where
  "thrown outcomes =
     (case List.find (\<lambda>outcome. case outcome of Throws e \<Rightarrow> True | _ \<Rightarrow> False) outcomes of
        Some (Throws e) \<Rightarrow> Some e
      | _ \<Rightarrow> None)"

definition settled :: "nat list \<Rightarrow> Outcome \<Rightarrow> bool" where
  "settled answered outcome = (case outcome of Awaits n \<Rightarrow> n \<in> set answered | _ \<Rightarrow> True)"

definition handlerSettle :: "nat list \<Rightarrow> Todo \<Rightarrow> HandlerPhase" where
  "handlerSettle answered todo =
     (case thrown (concat (map snd todo)) of
        Some e \<Rightarrow> HandlerRejected e
      | None \<Rightarrow>
          if list_all (settled answered) (concat (map snd todo))
          then HandlerReturned
                 (list_ex (list_ex (\<lambda>l. lc_columnNumber l \<le> 1 \<and> lc_lineNumber l \<le> 1)) (map fst todo))
          else HandlerAwaits)"

section \<open>breakpoints.ts: the calls that overlap\<close>

text \<open>
  The asynchronous functions of the manager run up to an \<open>await\<close> and go on when what they
  await has settled; other calls and answers of the runtime come in between. A state has the
  manager, the commands that the runtime has answered, the calls of \<open>setBreakpoints\<close> and the
  calls of the source map handler, each with the place where it waits.
\<close>

record Handler =
  h_todo :: Todo
  h_phase :: HandlerPhase

record World =
  w_manager :: BreakpointManager
  w_answered :: "nat list"
  w_calls :: "Call list"
  w_handlers :: "Handler list"

datatype Event =
  SetBreakpointsCalled SetBreakpointsParams "int list"
| PredictorDone nat
| ScriptParsed Script "Source list"
| Answered nat "(BreakpointId \<times> CdpLocation list) option"
| RemoveResumed nat nat
| CallResumed nat
| HandlerResumed nat

text \<open>The breakpoint whose \<open>_activeSetters\<close> has the setter of command \<open>n\<close>.\<close>

definition setterOwner :: "BreakpointManager \<Rightarrow> nat \<Rightarrow> ref option" where
  "setterOwner m n = List.find (\<lambda>r. n \<in> set (b_activeSetters (m_store m r))) [0 ..< m_nextRef m]"

text \<open>
  The runtime answers command \<open>n\<close>. The setter of a \<open>setBreakpointByUrl\<close> or \<open>setBreakpoint\<close>
  command goes on: \<open>if (result) this.breakpointResolved(...)\<close>.
\<close>

definition answer ::
  "nat \<Rightarrow> (BreakpointId \<times> CdpLocation list) option \<Rightarrow> BreakpointManager \<Rightarrow> BreakpointManager" where
  "answer n result m =
     (case (m_cdp m ! n, result, setterOwner m n) of
        (RemoveBreakpoint cdpId, _, _) \<Rightarrow> m
      | (_, Some (cdpId, locations), Some r) \<Rightarrow> breakpointResolved r cdpId m
      | _ \<Rightarrow> m)"

text \<open>A \<open>remove()\<close> call goes on when everything that it awaits has settled.\<close>

definition removeResume :: "nat list \<Rightarrow> RemoveTask \<Rightarrow> BreakpointManager \<Rightarrow> (RemoveTask \<times> BreakpointManager) option" where
  "removeResume answered task m =
     (case rt_phase task of
        AwaitSetters setters \<Rightarrow>
          if set setters \<subseteq> set answered
          then (let (phase, m') = removeIds (rt_breakpoint task) m in Some (task\<lparr>rt_phase := phase\<rparr>, m'))
          else None
      | AwaitRemovals commands \<Rightarrow>
          if set commands \<subseteq> set answered then Some (task\<lparr>rt_phase := RemoveDone\<rparr>, m) else None
      | _ \<Rightarrow> None)"

text \<open>
  A call of \<open>setBreakpoints\<close> goes on after \<open>Promise.all\<close>: rejected when a \<open>remove()\<close> was,
  and with the rest of the function when all have finished.
\<close>

definition removeThrown :: "RemoveTask list \<Rightarrow> jsError option" where
  "removeThrown tasks =
     (case List.find (\<lambda>task. case rt_phase task of RemoveThrew e \<Rightarrow> True | _ \<Rightarrow> False) tasks of
        Some task \<Rightarrow> (case rt_phase task of RemoveThrew e \<Rightarrow> Some e | _ \<Rightarrow> None)
      | None \<Rightarrow> None)"

definition callResume :: "Env \<Rightarrow> Call \<Rightarrow> BreakpointManager \<Rightarrow> (Call \<times> BreakpointManager) option" where
  "callResume env call m =
     (if call_phase call \<noteq> AwaitRemoves then None
      else case removeThrown (call_removes call) of
             Some e \<Rightarrow> Some (call\<lparr>call_phase := Rejected e\<rparr>, m)
           | None \<Rightarrow>
               if list_all (\<lambda>task. rt_phase task = RemoveDone) (call_removes call)
               then Some (callFinish env call m)
               else None)"

text \<open>One event; \<open>None\<close> when it cannot happen in the state.\<close>

definition step :: "Env \<Rightarrow> Event \<Rightarrow> World \<Rightarrow> World option" where
  "step env event w =
     (case event of
        SetBreakpointsCalled params ids \<Rightarrow>
          (let (call, m) = callStart env params ids (w_manager w)
           in Some (w\<lparr>w_manager := m, w_calls := w_calls w @ [call]\<rparr>))
      | PredictorDone k \<Rightarrow>
          if k < length (w_calls w) \<and> call_phase (w_calls w ! k) = AwaitPredictor
          then (let (call, m) = callReplace env (w_calls w ! k) (w_manager w)
                in Some (w\<lparr>w_manager := m, w_calls := (w_calls w)[k := call]\<rparr>))
          else None
      | ScriptParsed script srcs \<Rightarrow>
          (let (todo, m) = handlerStart env script srcs (w_manager w)
           in Some (w\<lparr>w_manager := m,
                       w_handlers := w_handlers w @ [\<lparr>h_todo = todo, h_phase = HandlerAwaits\<rparr>]\<rparr>))
      | Answered n result \<Rightarrow>
          if n < length (m_cdp (w_manager w)) \<and> n \<notin> set (w_answered w)
          then Some (w\<lparr>w_manager := answer n result (w_manager w), w_answered := w_answered w @ [n]\<rparr>)
          else None
      | RemoveResumed k j \<Rightarrow>
          if k < length (w_calls w) \<and> call_phase (w_calls w ! k) = AwaitRemoves
             \<and> j < length (call_removes (w_calls w ! k))
          then (case removeResume (w_answered w) (call_removes (w_calls w ! k) ! j) (w_manager w) of
                  None \<Rightarrow> None
                | Some (task, m) \<Rightarrow>
                    Some (w\<lparr>w_manager := m,
                            w_calls := (w_calls w)
                              [k := (w_calls w ! k)\<lparr>call_removes := (call_removes (w_calls w ! k))[j := task]\<rparr>]\<rparr>))
          else None
      | CallResumed k \<Rightarrow>
          if k < length (w_calls w)
          then (case callResume env (w_calls w ! k) (w_manager w) of
                  None \<Rightarrow> None
                | Some (call, m) \<Rightarrow> Some (w\<lparr>w_manager := m, w_calls := (w_calls w)[k := call]\<rparr>))
          else None
      | HandlerResumed k \<Rightarrow>
          if k < length (w_handlers w) \<and> h_phase (w_handlers w ! k) = HandlerAwaits
             \<and> handlerSettle (w_answered w) (h_todo (w_handlers w ! k)) \<noteq> HandlerAwaits
          then Some (w\<lparr>w_handlers := (w_handlers w)
                         [k := (w_handlers w ! k)\<lparr>h_phase := handlerSettle (w_answered w) (h_todo (w_handlers w ! k))\<rparr>]\<rparr>)
          else None)"

fun run :: "Env \<Rightarrow> Event list \<Rightarrow> World \<Rightarrow> World option" where
  "run env [] w = Some w"
| "run env (event # events) w = (case step env event w of None \<Rightarrow> None | Some w' \<Rightarrow> run env events w')"

text \<open>A manager with a thread and nothing else.\<close>

definition exampleSource :: DapSource where
  "exampleSource = \<lparr>ds_path = Some ''/web/a.ts'', ds_sourceReference = None\<rparr>"

definition exampleSourceBreakpoint :: SourceBreakpoint where
  "exampleSourceBreakpoint = \<lparr>sb_line = 1, sb_column = None, sb_condition = None, sb_logMessage = None\<rparr>"

definition exampleAuthored :: Source where
  "exampleAuthored = \<lparr>src_url = ''file:///web/a.ts'', src_absolutePath = ''/web/a.ts'', src_sourceReference = 0\<rparr>"

definition exampleCompiled :: Source where
  "exampleCompiled = \<lparr>src_url = ''file:///web/bundle.js'', src_absolutePath = ''/web/bundle.js'', src_sourceReference = 0\<rparr>"

definition exampleScript :: Script where
  "exampleScript = \<lparr>script_url = ''file:///web/bundle.js'', script_scriptId = ''7'', script_source = exampleCompiled\<rparr>"

definition exampleEnv :: Env where
  "exampleEnv =
     \<lparr>env_source = (\<lambda>source. if ds_path source = Some ''/web/a.ts'' then Some exampleAuthored else None),
      env_currentSiblingUiLocations =
        (\<lambda>uiLocation inSource.
           case inSource of
             None \<Rightarrow> []
           | Some source \<Rightarrow> [\<lparr>lc_lineNumber = 1, lc_columnNumber = 1, ui_source = source\<rparr>]),
      env_absolutePathToUrl = (\<lambda>p. Some (''file://'' @ p)),
      env_predictedResolvedLocations = None,
      env_scriptsFromSource = (\<lambda>source. []),
      env_rewriteLogPoint = (\<lambda>s. s),
      env_platformPathToPreferredCase = (\<lambda>p. p)\<rparr>"

definition emptyManager :: BreakpointManager where
  "emptyManager =
     \<lparr>m_byPath = Map.empty, m_byRef = Map.empty, m_thread = True, m_resolvedBreakpoints = Map.empty,
      m_totalBreakpointsCount = 0, m_predictorDisabledForTest = False,
      m_store = (\<lambda>r. newBreakpoint exampleEnv None exampleSource exampleSourceBreakpoint),
      m_nextRef = 0, m_cdp = []\<rparr>"

definition emptyWorld :: World where
  "emptyWorld = \<lparr>w_manager = emptyManager, w_answered = [], w_calls = [], w_handlers = []\<rparr>"

text \<open>
  Two calls of \<open>setBreakpoints\<close> for \<open>/web/a.ts\<close> overlap. The source has breakpoint 0 with the
  id \<open>id0\<close>. Call 1 replaces it by breakpoint 1 and waits for the removal of \<open>id0\<close>. A script
  with a source map arrives and the handler sets breakpoint 1 in it (command 2). Call 2
  clears the source: breakpoint 1 is the previous one, and its \<open>remove()\<close> waits for command 2.
  The removal of \<open>id0\<close> is answered, call 1 goes on and sets breakpoint 1 by url (command 3).
  Command 2 is answered with \<open>id1\<close>, which \<open>remove()\<close> removes (command 4). Command 3 is
  answered with \<open>id2\<close>, then command 4, and call 2 returns.
\<close>

definition overlappingCalls :: "Event list" where
  "overlappingCalls =
     [SetBreakpointsCalled \<lparr>params_source = exampleSource, params_breakpoints = Some [exampleSourceBreakpoint]\<rparr> [1],
      Answered 0 (Some (''id0'', [])),
      SetBreakpointsCalled \<lparr>params_source = exampleSource, params_breakpoints = Some [exampleSourceBreakpoint]\<rparr> [2],
      RemoveResumed 1 0,
      ScriptParsed exampleScript [exampleAuthored],
      SetBreakpointsCalled \<lparr>params_source = exampleSource, params_breakpoints = Some []\<rparr> [],
      Answered 1 None,
      RemoveResumed 1 0,
      CallResumed 1,
      Answered 2 (Some (''id1'', [(''7'', 0, 0)])),
      HandlerResumed 0,
      RemoveResumed 2 0,
      Answered 3 (Some (''id2'', [])),
      Answered 4 None,
      RemoveResumed 2 0,
      CallResumed 2]"

section \<open>Notions used to state the properties of breakpoints.ts\<close>

text \<open>
  The locations that \<open>updateForSourceMap\<close> returns for a breakpoint and a script: where the
  source container puts the breakpoint's position in the script's source.
\<close>

definition siblingLocations :: "Env \<Rightarrow> Breakpoint \<Rightarrow> Script \<Rightarrow> UiLocation list" where
  "siblingLocations env b script =
     (case env_source env (b_source b) of
        None \<Rightarrow> []
      | Some source \<Rightarrow>
          env_currentSiblingUiLocations env
            \<lparr>lc_lineNumber = lc_lineNumber (b_lineColumn b),
             lc_columnNumber = lc_columnNumber (b_lineColumn b), ui_source = source\<rparr>
            (Some (script_source script)))"

text \<open>The url of the script and the position were set by url before: \<open>_setByScriptId\<close> does nothing.\<close>

definition alreadySet :: "Breakpoint \<Rightarrow> Script \<Rightarrow> UiLocation \<Rightarrow> bool" where
  "alreadySet b script l \<longleftrightarrow>
     script_url script \<noteq> [] \<and> urlLocation (script_url script) l \<in> b_setUrlLocations b"

text \<open>
  The locations at which a call of the handler set a breakpoint again: those for which
  \<open>_setByScriptId\<close> sent a command.
\<close>

definition isAwaits :: "Outcome \<Rightarrow> bool" where
  "isAwaits outcome = (case outcome of Awaits n \<Rightarrow> True | _ \<Rightarrow> False)"

definition reSetLocations :: "Todo \<Rightarrow> UiLocation list" where
  "reSetLocations todo =
     concat (map (\<lambda>(uiLocations, promises).
                    map fst (filter (\<lambda>(l, outcome). isAwaits outcome) (zip uiLocations promises)))
               todo)"

text \<open>The command that \<open>_setByScriptId\<close> sends for a location.\<close>

definition setCommand :: "Breakpoint \<Rightarrow> Script \<Rightarrow> UiLocation \<Rightarrow> CdpCommand" where
  "setCommand b script l = SetBreakpoint (script_scriptId script) (LineColumn.truncate l) (b_condition b)"

text \<open>
  What a call of \<open>updateForSourceMap\<close> for the breakpoint \<open>b\<close> is expected to do: the locations
  returned, for each whether it is skipped, set or fails, and the commands sent.
\<close>

definition kind :: "Outcome \<Rightarrow> Outcome" where
  "kind outcome = (case outcome of Awaits n \<Rightarrow> Awaits 0 | _ \<Rightarrow> outcome)"

definition expectedKind :: "bool \<Rightarrow> Breakpoint \<Rightarrow> Script \<Rightarrow> UiLocation \<Rightarrow> Outcome" where
  "expectedKind thread b script l =
     (if alreadySet b script l then Skipped else if thread then Awaits 0 else Throws TypeError)"

definition expectedCommands :: "bool \<Rightarrow> Breakpoint \<Rightarrow> Script \<Rightarrow> UiLocation list \<Rightarrow> CdpCommand list" where
  "expectedCommands thread b script ls =
     (if thread then map (setCommand b script) (filter (\<lambda>l. \<not> alreadySet b script l) ls) else [])"

text \<open>
  Two states of the manager with the same lists of breakpoints and the same thread, and the
  same source, position, condition and urls set in every breakpoint.
\<close>

definition sameBreakpoints :: "BreakpointManager \<Rightarrow> BreakpointManager \<Rightarrow> bool" where
  "sameBreakpoints m m' \<longleftrightarrow>
     m_byPath m' = m_byPath m \<and> m_byRef m' = m_byRef m \<and> m_thread m' = m_thread m
     \<and> (\<forall>r. b_source (m_store m' r) = b_source (m_store m r)
            \<and> b_lineColumn (m_store m' r) = b_lineColumn (m_store m r)
            \<and> b_condition (m_store m' r) = b_condition (m_store m r)
            \<and> b_setUrlLocations (m_store m' r) = b_setUrlLocations (m_store m r))"

definition kinds :: "UiLocation list \<times> Outcome list \<Rightarrow> UiLocation list \<times> Outcome list" where
  "kinds promise = (fst promise, map kind (snd promise))"

definition expectedPromise :: "Env \<Rightarrow> bool \<Rightarrow> Breakpoint \<Rightarrow> Script \<Rightarrow> UiLocation list \<times> Outcome list" where
  "expectedPromise env thread b script =
     (siblingLocations env b script, map (expectedKind thread b script) (siblingLocations env b script))"

definition expectedSent :: "Env \<Rightarrow> bool \<Rightarrow> Breakpoint \<Rightarrow> Script \<Rightarrow> CdpCommand list" where
  "expectedSent env thread b script = expectedCommands thread b script (siblingLocations env b script)"

text \<open>The locations of a breakpoint in the script that were not set by url before.\<close>

definition notYetSet :: "Env \<Rightarrow> BreakpointManager \<Rightarrow> Script \<Rightarrow> ref \<Rightarrow> UiLocation list" where
  "notYetSet env m script r =
     filter (\<lambda>l. \<not> alreadySet (m_store m r) script l) (siblingLocations env (m_store m r) script)"

definition reSetOne :: "UiLocation list \<times> Outcome list \<Rightarrow> UiLocation list" where
  "reSetOne promise = map fst (filter (\<lambda>(l, outcome). isAwaits outcome) (zip (fst promise) (snd promise)))"

text \<open>
  The example manager after \<open>setBreakpoints\<close> for \<open>/web/a.ts\<close> with one breakpoint on line 1: the
  breakpoint was set by url at \<open>file:///web/a.ts\<close>, line 1, column 1.
\<close>

definition exampleManager :: BreakpointManager where
  "exampleManager =
     (case run exampleEnv
             [SetBreakpointsCalled
                \<lparr>params_source = exampleSource, params_breakpoints = Some [exampleSourceBreakpoint]\<rparr> [1]]
             emptyWorld of
        None \<Rightarrow> emptyManager
      | Some w \<Rightarrow> w_manager w)"

text \<open>
  A script that is compiled in memory and run under the url of the authored file, with a
  source map that names that file.
\<close>

definition exampleInPlace :: Source where
  "exampleInPlace = \<lparr>src_url = ''file:///web/a.ts'', src_absolutePath = [], src_sourceReference = 1\<rparr>"

definition exampleServed :: Script where
  "exampleServed = \<lparr>script_url = ''file:///web/a.ts'', script_scriptId = ''8'', script_source = exampleInPlace\<rparr>"

text \<open>
  A call of \<open>setBreakpoints\<close> with an empty list that nothing overlaps: the source has
  breakpoint 0 with the id \<open>id0\<close>, and the call removes it.
\<close>

definition clearingAlone :: "Event list" where
  "clearingAlone =
     [SetBreakpointsCalled \<lparr>params_source = exampleSource, params_breakpoints = Some [exampleSourceBreakpoint]\<rparr> [1],
      Answered 0 (Some (''id0'', [])),
      SetBreakpointsCalled \<lparr>params_source = exampleSource, params_breakpoints = Some []\<rparr> [],
      RemoveResumed 1 0,
      Answered 1 None,
      RemoveResumed 1 0,
      CallResumed 1]"

section \<open>browserDelegate.ts: the source path resolver\<close>

text \<open>
  What \<open>BrowserSourcePathResolver\<close> uses and the repository's sources given here do not
  contain: Node's \<open>path\<close> module, the \<open>URL\<close> class of Node's \<open>url\<close> module (its objects are the
  type \<open>'u\<close>, with the getters and setters that the resolver calls), and the two functions of
  \<open>utils/urlUtils\<close>. \<open>url_new s base\<close> is \<open>new URL(s, base)\<close>, which raises \<open>TypeError\<close> for an
  invalid URL.
\<close>

record 'u Platform =
  path_normalize :: "string \<Rightarrow> string"
  path_relative :: "string \<Rightarrow> string \<Rightarrow> string"
  path_join :: "string \<Rightarrow> string \<Rightarrow> string"
  path_sep :: string
  url_new :: "string \<Rightarrow> 'u option \<Rightarrow> jsError + 'u"
  url_toString :: "'u \<Rightarrow> string"
  url_origin :: "'u \<Rightarrow> string"
  url_protocol :: "'u \<Rightarrow> string"
  url_pathname :: "'u \<Rightarrow> string"
  url_setPathname :: "string \<Rightarrow> 'u \<Rightarrow> 'u"
  url_setSearch :: "string \<Rightarrow> 'u \<Rightarrow> 'u"
  url_setHash :: "string \<Rightarrow> 'u \<Rightarrow> 'u"
  fileUrlToAbsolutePath :: "string \<Rightarrow> string option"
  absolutePathToFileUrl :: "string \<Rightarrow> string option"

record PathRule =
  urlPrefix :: string
  pathPrefix :: string

record 'u BrowserSourcePathResolver =
  r_basePath :: "string option"
  r_baseUrl :: "'u option"
  r_rules :: "PathRule list"
  r_rootPath :: "string option"

text \<open>
  The replacement string of \<open>String.prototype.replace\<close>: \<open>$$\<close> is a dollar sign, \<open>$&\<close> the
  match, \<open>$`\<close> the text preceding the match and \<open>$'\<close> the text following it. The pattern
  \<open>/{webRoot}/g\<close> has no group, so \<open>$1\<close> and \<open>$<\<close> stand for themselves.
\<close>

fun getSubstitution :: "string \<Rightarrow> string \<Rightarrow> string \<Rightarrow> string \<Rightarrow> string" where
  "getSubstitution matched preceding following [] = []"
| "getSubstitution matched preceding following [c] = [c]"
| "getSubstitution matched preceding following (c # d # rest) =
     (if c = CHR ''$'' \<and> d = CHR ''$'' then CHR ''$'' # getSubstitution matched preceding following rest
      else if c = CHR ''$'' \<and> d = CHR ''&'' then matched @ getSubstitution matched preceding following rest
      else if c = CHR ''$'' \<and> d = CHR ''`'' then preceding @ getSubstitution matched preceding following rest
      else if c = CHR ''$'' \<and> d = CHR 0x27 then following @ getSubstitution matched preceding following rest
      else c # getSubstitution matched preceding following (d # rest))"

text \<open>\<open>s.replace(/{webRoot}/g, replacement)\<close>, with \<open>preceding\<close> the text already passed.\<close>

function replaceWebRoot :: "string \<Rightarrow> string \<Rightarrow> string \<Rightarrow> string" where
  "replaceWebRoot replacement preceding s =
     (if s = [] then []
      else if startsWith s ''{webRoot}''
      then getSubstitution ''{webRoot}'' preceding (drop 9 s) replacement
           @ replaceWebRoot replacement (preceding @ ''{webRoot}'') (drop 9 s)
      else hd s # replaceWebRoot replacement (preceding @ [hd s]) (tl s))"
  by pat_completeness auto

termination
  by (relation "measure (\<lambda>(replacement, preceding, s). length s)") auto

definition substitute :: "string \<Rightarrow> string \<Rightarrow> string" where
  "substitute basePath s = replaceWebRoot basePath [] s"

text \<open>The constructor. A string is falsy when it is \<open>undefined\<close> or empty.\<close>

definition newResolver ::
  "'u Platform \<Rightarrow> string option \<Rightarrow> string \<Rightarrow> string option \<Rightarrow> 'u BrowserSourcePathResolver" where
  "newResolver P rootPath u webRoot =
     (let basePath = (case webRoot of
                        None \<Rightarrow> None
                      | Some w \<Rightarrow> if w \<noteq> [] then Some (path_normalize P w) else None);
          baseUrl = (case url_new P u None of
                       Inl e \<Rightarrow> None
                     | Inr parsed \<Rightarrow>
                         let b = url_setHash P [] (url_setSearch P [] (url_setPathname P ''/'' parsed))
                         in if url_protocol P b = ''data:'' then None else Some b)
      in \<lparr>r_basePath = basePath, r_baseUrl = baseUrl,
          r_rules = (case basePath of
                       None \<Rightarrow> []
                     | Some bp \<Rightarrow>
                         if bp = [] then []
                         else [\<lparr>urlPrefix = ''webpack:///./~/'', pathPrefix = substitute bp ''{webRoot}/node_modules/''\<rparr>,
                               \<lparr>urlPrefix = ''webpack:///./'', pathPrefix = substitute bp ''{webRoot}/''\<rparr>,
                               \<lparr>urlPrefix = ''webpack:///src/'', pathPrefix = substitute bp ''{webRoot}/''\<rparr>,
                               \<lparr>urlPrefix = ''webpack:///'', pathPrefix = substitute bp ''/''\<rparr>]),
          r_rootPath = rootPath\<rparr>)"


text \<open>\<open>urlToAbsolutePath\<close>. The first rule whose prefix the url starts with decides.\<close>

definition urlToAbsolutePath :: "'u Platform \<Rightarrow> 'u BrowserSourcePathResolver \<Rightarrow> string \<Rightarrow> string" where
  "urlToAbsolutePath P this u =
     (let absolutePath = fileUrlToAbsolutePath P u in
      if absolutePath \<noteq> None \<and> absolutePath \<noteq> Some []
      then (case absolutePath of Some a \<Rightarrow> a | None \<Rightarrow> [])
      else case List.find (\<lambda>entry. startsWith u (urlPrefix entry)) (r_rules this) of
             Some entry \<Rightarrow> pathPrefix entry @ substring u (int (length (pathPrefix entry)))
           | None \<Rightarrow>
               (case (r_basePath this, r_baseUrl this) of
                  (Some basePath, Some baseUrl) \<Rightarrow>
                    if basePath = [] then []
                    else (case url_new P u None of
                            Inl e \<Rightarrow> []
                          | Inr parsed \<Rightarrow>
                              if url_origin P parsed \<noteq> url_origin P baseUrl then []
                              else
                                let pathname = path_normalize P (url_pathname P parsed);
                                    basepath0 = path_normalize P (url_pathname P baseUrl);
                                    basepath = (if \<not> endsWith basepath0 (path_sep P)
                                                then basepath0 @ ''/'' else basepath0)
                                in if \<not> startsWith pathname basepath then []
                                   else
                                     let relative0 = (if basepath = pathname then []
                                                      else path_normalize P (path_relative P basepath pathname));
                                         relative = (if relative0 = [] \<or> relative0 = ''/''
                                                     then ''index.html'' else relative0)
                                     in path_join P basePath relative)
                | _ \<Rightarrow> []))"

section \<open>Node's \<open>path.posix\<close>\<close>

text \<open>
  The functions of Node's \<open>path\<close> module on a POSIX system, as \<open>lib/path.js\<close> of Node computes
  them, on the segments between the slashes. \<open>normalizeSegments\<close> is \<open>normalizeString\<close>: it skips
  empty segments and \<open>.\<close>, and \<open>..\<close> removes the segment before it, or is kept when there is
  none to remove and the path is relative.
\<close>

fun splitOn :: "char \<Rightarrow> string \<Rightarrow> string list" where
  "splitOn c [] = [[]]"
| "splitOn c (x # xs) =
     (if x = c then [] # splitOn c xs
      else (case splitOn c xs of
              [] \<Rightarrow> [[x]]
            | s # ss \<Rightarrow> (x # s) # ss))"

fun joinWith :: "string \<Rightarrow> string list \<Rightarrow> string" where
  "joinWith sep [] = []"
| "joinWith sep [s] = s"
| "joinWith sep (s # t # ss) = s @ sep @ joinWith sep (t # ss)"

definition normalizeStep :: "bool \<Rightarrow> string \<Rightarrow> string list \<Rightarrow> string list" where
  "normalizeStep allowAboveRoot segment res =
     (if segment = [] \<or> segment = ''.'' then res
      else if segment = ''..''
      then (if res \<noteq> [] \<and> last res \<noteq> ''..'' then butlast res
            else if allowAboveRoot then res @ [''..''] else res)
      else res @ [segment])"

definition normalizeSegments :: "bool \<Rightarrow> string list \<Rightarrow> string list" where
  "normalizeSegments allowAboveRoot segments = fold (normalizeStep allowAboveRoot) segments []"

definition normalizeString :: "string \<Rightarrow> bool \<Rightarrow> string" where
  "normalizeString p allowAboveRoot = joinWith ''/'' (normalizeSegments allowAboveRoot (splitOn CHR ''/'' p))"

definition posix_normalize :: "string \<Rightarrow> string" where
  "posix_normalize p =
     (if p = [] then ''.''
      else
        let isAbsolute = (hd p = CHR ''/'');
            trailingSeparator = (last p = CHR ''/'');
            q = normalizeString p (\<not> isAbsolute)
        in if q = [] then (if isAbsolute then ''/'' else if trailingSeparator then ''./'' else ''.'')
           else (if isAbsolute then ''/'' else []) @ q @ (if trailingSeparator then ''/'' else []))"

text \<open>\<open>path.resolve\<close> of one path, with the working directory \<open>cwd\<close>, which is absolute.\<close>

definition posix_resolve :: "string \<Rightarrow> string \<Rightarrow> string" where
  "posix_resolve cwd p =
     ''/'' @ normalizeString (if p = [] then cwd
                              else if hd p = CHR ''/'' then p
                              else cwd @ ''/'' @ p) False"

fun commonPrefix :: "'a list \<Rightarrow> 'a list \<Rightarrow> nat" where
  "commonPrefix (x # xs) (y # ys) = (if x = y then Suc (commonPrefix xs ys) else 0)"
| "commonPrefix xs ys = 0"

definition posix_relative :: "string \<Rightarrow> string \<Rightarrow> string \<Rightarrow> string" where
  "posix_relative cwd from to =
     (if from = to then []
      else
        let fromSegments = normalizeSegments False (splitOn CHR ''/'' (posix_resolve cwd from));
            toSegments = normalizeSegments False (splitOn CHR ''/'' (posix_resolve cwd to));
            shared = commonPrefix fromSegments toSegments
        in joinWith ''/'' (replicate (length fromSegments - shared) ''..'' @ drop shared toSegments))"

definition posix_join :: "string \<Rightarrow> string \<Rightarrow> string" where
  "posix_join a b =
     (let parts = filter (\<lambda>s. s \<noteq> []) [a, b]
      in if parts = [] then ''.'' else posix_normalize (joinWith ''/'' parts))"





section \<open>An example platform\<close>

text \<open>
  A platform to run the resolver on: POSIX paths with the working directory \<open>/\<close>, and the
  \<open>URL\<close> class for urls of the form \<open>scheme://host/path\<close> and for paths relative to such a url,
  written with characters that the class does not escape. A url is kept as its parts. The
  path of a url is resolved as the class does it: \<open>.\<close> is dropped and \<open>..\<close> takes the segment
  before it away.
\<close>

record SimpleURL =
  su_protocol :: string
  su_host :: string
  su_pathname :: string
  su_search :: string
  su_hash :: string

fun removeDots :: "string list \<Rightarrow> string list \<Rightarrow> string list" where
  "removeDots acc [] = acc"
| "removeDots acc [s] =
     (if s = ''.'' then acc @ [[]] else if s = ''..'' then butlast acc @ [[]] else acc @ [s])"
| "removeDots acc (s # t # ss) =
     (if s = ''.'' then removeDots acc (t # ss)
      else if s = ''..'' then removeDots (butlast acc) (t # ss)
      else removeDots (acc @ [s]) (t # ss))"

definition resolvePathname :: "string \<Rightarrow> string" where
  "resolvePathname p = ''/'' @ joinWith ''/'' (removeDots [] (splitOn CHR ''/'' (drop 1 p)))"

definition isLetter :: "char \<Rightarrow> bool" where
  "isLetter c \<longleftrightarrow> c \<in> set ''abcdefghijklmnopqrstuvwxyzABCDEFGHIJKLMNOPQRSTUVWXYZ''"

definition isSchemeChar :: "char \<Rightarrow> bool" where
  "isSchemeChar c \<longleftrightarrow> isLetter c \<or> c \<in> set ''0123456789+-.''"

text \<open>The scheme of an absolute url and what follows its colon.\<close>

definition schemeOf :: "string \<Rightarrow> (string \<times> string) option" where
  "schemeOf s =
     (let scheme = takeWhile isSchemeChar s;
          rest = dropWhile isSchemeChar s
      in if scheme \<noteq> [] \<and> isLetter (hd scheme) \<and> rest \<noteq> [] \<and> hd rest = CHR '':''
         then Some (scheme, tl rest) else None)"

definition simpleUrl :: "string \<Rightarrow> SimpleURL option \<Rightarrow> jsError + SimpleURL" where
  "simpleUrl s base =
     (case schemeOf s of
        Some (scheme, rest) \<Rightarrow>
          if startsWith rest ''//''
          then (let host = takeWhile (\<lambda>c. c \<noteq> CHR ''/'') (drop 2 rest);
                    p = dropWhile (\<lambda>c. c \<noteq> CHR ''/'') (drop 2 rest)
                in Inr \<lparr>su_protocol = scheme @ '':'', su_host = host, su_pathname = resolvePathname p,
                        su_search = [], su_hash = []\<rparr>)
          else Inr \<lparr>su_protocol = scheme @ '':'', su_host = [], su_pathname = rest,
                    su_search = [], su_hash = []\<rparr>
      | None \<Rightarrow>
          (case base of
             None \<Rightarrow> Inl TypeError
           | Some b \<Rightarrow>
               Inr (b\<lparr>su_pathname :=
                        resolvePathname
                          (if s \<noteq> [] \<and> hd s = CHR ''/'' then s
                           else joinWith ''/'' (butlast (splitOn CHR ''/'' (su_pathname b)) @ [s])),
                      su_search := [], su_hash := []\<rparr>)))"

definition simpleOrigin :: "SimpleURL \<Rightarrow> string" where
  "simpleOrigin u =
     (if su_protocol u \<in> set [''http:'', ''https:'', ''ws:'', ''wss:'', ''ftp:'']
      then su_protocol u @ ''//'' @ su_host u else ''null'')"

definition simpleToString :: "SimpleURL \<Rightarrow> string" where
  "simpleToString u = su_protocol u @ ''//'' @ su_host u @ su_pathname u @ su_search u @ su_hash u"

text \<open>
  Modelled from the spec: \<open>utils.fileUrlToAbsolutePath\<close>, which is not in the sources given. It
  strips \<open>file://\<close>, and is \<open>undefined\<close> for a url that is no \<open>file:\<close> url.
\<close>

definition stripFileUrl :: "string \<Rightarrow> string option" where
  "stripFileUrl u = (if startsWith u ''file://'' then Some (drop 7 u) else None)"

text \<open>
  Modelled from the spec: \<open>utils.absolutePathToFileUrl\<close>, which is not in the sources given. It
  returns a \<open>file://\<close> url.
\<close>

definition toFileUrl :: "string \<Rightarrow> string option" where
  "toFileUrl p = Some (''file://'' @ p)"

definition examplePlatform :: "SimpleURL Platform" where
  "examplePlatform =
     \<lparr>path_normalize = posix_normalize,
      path_relative = posix_relative ''/'',
      path_join = posix_join,
      path_sep = ''/'',
      url_new = simpleUrl,
      url_toString = simpleToString,
      url_origin = simpleOrigin,
      url_protocol = su_protocol,
      url_pathname = su_pathname,
      url_setPathname = (\<lambda>p u. u\<lparr>su_pathname := resolvePathname p\<rparr>),
      url_setSearch = (\<lambda>q u. u\<lparr>su_search := q\<rparr>),
      url_setHash = (\<lambda>h u. u\<lparr>su_hash := h\<rparr>),
      fileUrlToAbsolutePath = stripFileUrl,
      absolutePathToFileUrl = toFileUrl\<rparr>"

text \<open>The resolver of a page at \<open>http://localhost:8000/app\<close> with the web root \<open>/web\<close>.\<close>

definition exampleResolver :: "SimpleURL BrowserSourcePathResolver" where
  "exampleResolver = newResolver examplePlatform None ''http://localhost:8000/app'' (Some ''/web'')"

section \<open>Notions used to state the properties of sourceMap.ts\<close>

text \<open>The generated position of an entry, ordered lexicographically.\<close>

definition generatedPosition :: "SourceMapEntry \<Rightarrow> int \<times> int" where
  "generatedPosition e = (lineNumber e, columnNumber e)"

text \<open>The array that the first call of \<open>mappings()\<close> builds from the payload.\<close>

definition allMappings :: "SourceMapV3 \<Rightarrow> SourceMapEntry list" where
  "allMappings js = fold (\<lambda>(m, l, c) acc. parseMap acc m l c) (forEachSection js) []"

text \<open>The objects of class \<open>SourceMap\<close>: built by the constructor, then changed by its methods.\<close>

inductive reachable :: "SourceMap \<Rightarrow> bool" where
  constructed: "reachable (newSourceMap u payload)"
| after_mappings: "reachable sm \<Longrightarrow> SourceMap_mappings sm = Inr (ms, sm') \<Longrightarrow> reachable sm'"
| after_findEntry: "reachable sm \<Longrightarrow> findEntry sm l c = Inr (r, sm') \<Longrightarrow> reachable sm'"
| after_reversedMappings:
    "reachable sm \<Longrightarrow> reversedMappings sm u = Inr (ms, sm') \<Longrightarrow> reachable sm'"
| after_findReverseEntry:
    "reachable sm \<Longrightarrow> findReverseEntry sm u l c = Inr (r, sm') \<Longrightarrow> reachable sm'"

text \<open>What \<open>_reversedMappings\<close> stores for a source url.\<close>

definition reverseOf :: "SourceMapEntry list \<Rightarrow> string \<Rightarrow> SourceMapEntry list" where
  "reverseOf ms u =
     arraySort sourceMappingComparator (filter (\<lambda>mapping. sourceUrl mapping = Some u) ms)"

definition SourceMap_inv :: "SourceMapV3 \<Rightarrow> SourceMap \<Rightarrow> bool" where
  "SourceMap_inv js sm \<longleftrightarrow>
     (p_mappings sm = None \<and> p_json sm = Some js \<or> p_mappings sm = Some (allMappings js)) \<and>
     (\<forall>u info. p_sourceInfos sm u = Some info \<longrightarrow>
        reverseMappings info = None \<or> reverseMappings info = Some (reverseOf (allMappings js) u))"

text \<open>
  Every entry with a source url carries a source line and a source column: \<open>_parseMap\<close>
  builds such entries with five or six arguments.
\<close>

definition hasSourcePosition :: "SourceMapEntry \<Rightarrow> bool" where
  "hasSourcePosition e \<longleftrightarrow>
     sourceUrl e = None \<or> (sourceLineNumber e \<noteq> None \<and> sourceColumnNumber e \<noteq> None)"

text \<open>The order of \<open>sourceMappingComparator\<close> on entries that have a source position.\<close>

definition sourceKey :: "SourceMapEntry \<Rightarrow> int \<times> int \<times> int \<times> int" where
  "sourceKey e =
     (orZero (sourceLineNumber e), orZero (sourceColumnNumber e), lineNumber e, columnNumber e)"

definition sourcePosition :: "SourceMapEntry \<Rightarrow> int \<times> int" where
  "sourcePosition e = (orZero (sourceLineNumber e), orZero (sourceColumnNumber e))"

text \<open>
  The reverse lookup in the words of the specification: among the entries of the source,
  sorted by source position, the first one at or after the query position; if there is
  none, the last entry on the query's source line.
\<close>

definition spec_find_reverse_entry ::
  "SourceMapEntry list \<Rightarrow> string \<Rightarrow> int \<Rightarrow> int \<Rightarrow> SourceMapEntry option" where
  "spec_find_reverse_entry ms u l c =
     (case filter (\<lambda>e. (l, c) \<le> sourcePosition e) (reverseOf ms u) of
        e # es \<Rightarrow> Some e
      | [] \<Rightarrow>
          (case filter (\<lambda>e. sourceLineNumber e = Some l) (reverseOf ms u) of
             [] \<Rightarrow> None
           | e # es \<Rightarrow> Some (last (e # es))))"

text \<open>A source map of one source with entries at the source positions \<open>(5, 0)\<close> and \<open>(6, 0)\<close>.\<close>

definition reversePayload :: SourceMapV3 where
  "reversePayload = SourceMapV3 3 None [''a.ts''] None None ''AAKA;AACA'' None None"

text \<open>
  The specification's reading of \<open>load\<close>: a body that starts with the guard loses everything
  through the next line feed.
\<close>

definition spec_strip_xssi :: "string \<Rightarrow> string" where
  "spec_strip_xssi body =
     (if take 3 body = '')]}''
      then drop 1 (dropWhile (\<lambda>ch. ch \<noteq> lineFeed) body)
      else body)"

definition spec_load ::
  "(string \<Rightarrow> jsError + string) \<Rightarrow> (string \<Rightarrow> jsError + SourceMapV3) \<Rightarrow> string
     \<Rightarrow> jsError + SourceMap option" where
  "spec_load fetch JSON_parse u =
     (case fetch u of
        Inl e \<Rightarrow> Inr None
      | Inr body \<Rightarrow>
          (case JSON_parse (spec_strip_xssi body) of
             Inl e \<Rightarrow> Inr None
           | Inr payload \<Rightarrow> Inr (Some (newSourceMap u payload))))"

text \<open>
  A stand-in for \<open>JSON.parse\<close> in examples: it skips leading line feeds and accepts one text.
\<close>

definition exampleParse :: "string \<Rightarrow> jsError + SourceMapV3" where
  "exampleParse s =
     (if dropWhile (\<lambda>ch. ch = lineFeed) s = ''{\"version\":3,\"sources\":[],\"mappings\":\"\"}''
      then Inr (SourceMapV3 3 None [] None None [] None None)
      else Inl SyntaxError)"

text \<open>A source map with two sections, the second one starting on line 0 after the first.\<close>

definition examplePayload :: SourceMapV3 where
  "examplePayload =
     SourceMapV3 3 None [] None
       (Some [SourceMapV3Section (SourceMapV3Offset 0 0)
                (SourceMapV3 3 None [''a.ts''] None None ''AAAA;AACA'' None None) None,
              SourceMapV3Section (SourceMapV3Offset 0 5)
                (SourceMapV3 3 None [''b.ts''] None None ''AAAA'' (Some ''src'') None) None])
       [] None None"

section \<open>Properties of VLQ decoding\<close>






section \<open>Properties of sorting and of the parsed mappings\<close>

subsection \<open>Sorting with a comparator\<close>

lemma set_sortInsert: "set (sortInsert cmp x xs) = insert x (set xs)"
  by (induction xs) auto

lemma set_arraySort: "set (arraySort cmp xs) = set xs"
  by (induction xs) (simp_all add: arraySort_def set_sortInsert)

lemma length_sortInsert: "length (sortInsert cmp x xs) = Suc (length xs)"
  by (induction xs) auto

lemma length_arraySort: "length (arraySort cmp xs) = length xs"
  by (induction xs) (simp_all add: arraySort_def length_sortInsert)

lemma sorted_sortInsert:
  assumes tot: "\<And>a b. a \<in> A \<Longrightarrow> b \<in> A \<Longrightarrow> cmp a b \<le> 0 \<or> cmp b a \<le> 0"
    and trans: "\<And>a b c. a \<in> A \<Longrightarrow> b \<in> A \<Longrightarrow> c \<in> A \<Longrightarrow> cmp a b \<le> 0 \<Longrightarrow> cmp b c \<le> 0
                  \<Longrightarrow> cmp a c \<le> (0::int)"
    and "x \<in> A" "set xs \<subseteq> A" "sorted_wrt (\<lambda>a b. cmp a b \<le> 0) xs"
  shows "sorted_wrt (\<lambda>a b. cmp a b \<le> 0) (sortInsert cmp x xs)"
  using assms(3-)
proof (induction xs)
  case Nil
  then show ?case by simp
next
  case (Cons y ys)
  show ?case
  proof (cases "cmp x y \<le> 0")
    case True
    have "cmp x z \<le> 0" if "z \<in> set ys" for z
    proof -
      from that Cons.prems have "cmp y z \<le> 0" "z \<in> A" "y \<in> A" by auto
      with True \<open>x \<in> A\<close> show ?thesis using trans by blast
    qed
    with True Cons.prems show ?thesis by simp
  next
    case False
    from Cons.prems have "y \<in> A" by simp
    with False \<open>x \<in> A\<close> have "cmp y x \<le> 0" using tot by blast
    moreover have "sorted_wrt (\<lambda>a b. cmp a b \<le> 0) (sortInsert cmp x ys)"
      using Cons by simp
    ultimately show ?thesis
      using False Cons.prems by (simp add: set_sortInsert)
  qed
qed

lemma sorted_arraySort:
  assumes tot: "\<And>a b. a \<in> A \<Longrightarrow> b \<in> A \<Longrightarrow> cmp a b \<le> 0 \<or> cmp b a \<le> 0"
    and trans: "\<And>a b c. a \<in> A \<Longrightarrow> b \<in> A \<Longrightarrow> c \<in> A \<Longrightarrow> cmp a b \<le> 0 \<Longrightarrow> cmp b c \<le> 0
                  \<Longrightarrow> cmp a c \<le> (0::int)"
    and "set xs \<subseteq> A"
  shows "sorted_wrt (\<lambda>a b. cmp a b \<le> 0) (arraySort cmp xs)"
  using assms(3)
proof (induction xs)
  case Nil
  then show ?case by (simp add: arraySort_def)
next
  case (Cons x xs)
  then have "sorted_wrt (\<lambda>a b. cmp a b \<le> 0) (arraySort cmp xs)" "x \<in> A"
    "set (arraySort cmp xs) \<subseteq> A"
    by (simp_all add: set_arraySort)
  from sorted_sortInsert [of A cmp, OF tot trans this(2) this(3) this(1)]
  show ?case by (simp add: arraySort_def)
qed

subsection \<open>The generated order\<close>

lemma compare_le_iff: "compare a b \<le> 0 \<longleftrightarrow> generatedPosition a \<le> generatedPosition b"
  by (auto simp: compare_def generatedPosition_def less_eq_prod_def)

lemma sorted_arraySort_compare: "sorted (map generatedPosition (arraySort compare xs))"
proof -
  have "sorted_wrt (\<lambda>a b. compare a b \<le> 0) (arraySort compare xs)"
  proof (rule sorted_arraySort [of UNIV])
    show "compare a b \<le> 0 \<or> compare b a \<le> 0" for a b
      unfolding compare_le_iff by (rule linear)
    show "compare a c \<le> 0" if "compare a b \<le> 0" "compare b c \<le> 0" for a b c
      using that unfolding compare_le_iff by (rule order_trans)
  qed simp
  then show ?thesis
    by (simp add: sorted_map compare_le_iff)
qed

lemma sorted_parseMap: "sorted (map generatedPosition (parseMap ms m l c))"
  unfolding parseMap_def by (rule sorted_arraySort_compare)

lemma sorted_allMappings: "sorted (map generatedPosition (allMappings js))"
proof (cases "forEachSection js" rule: rev_cases)
  case Nil
  then show ?thesis by (simp add: allMappings_def)
next
  case (snoc calls call)
  obtain m l c where "call = (m, l, c)" by (cases call) auto
  with snoc show ?thesis
    by (simp add: allMappings_def sorted_parseMap)
qed

lemma mappings_newSourceMap:
  "SourceMap_mappings (newSourceMap u payload) =
     Inr (allMappings (the (p_json (newSourceMap u payload))),
          (newSourceMap u payload)\<lparr>p_mappings :=
              Some (allMappings (the (p_json (newSourceMap u payload)))), p_json := None\<rparr>)"
  by (simp add: SourceMap_mappings_def newSourceMap_def allMappings_def Let_def)

subsection \<open>The class invariant\<close>

lemma fold_upd_all:
  assumes "\<forall>u info. infos u = Some info \<longrightarrow> P info" and "\<forall>i. P (h i)"
  shows "\<forall>u info. fold (\<lambda>i acc. acc(f i \<mapsto> h i)) is infos u = Some info \<longrightarrow> P info"
  using assms(1)
proof (induction "is" arbitrary: infos)
  case Nil
  then show ?case by simp
next
  case (Cons i "is")
  have "\<forall>u info. (infos(f i \<mapsto> h i)) u = Some info \<longrightarrow> P info"
    using Cons.prems assms(2) by (auto split: if_splits)
  from Cons.IH [OF this] show ?case by simp
qed

lemma registerSources_fresh:
  assumes "\<forall>u info. infos u = Some info \<longrightarrow> reverseMappings info = None"
  shows "\<forall>u info. registerSources m infos u = Some info \<longrightarrow> reverseMappings info = None"
  unfolding registerSources_def
  by (rule fold_upd_all [OF assms]) simp

lemma fold_registerSources_fresh:
  assumes "\<forall>u info. infos u = Some info \<longrightarrow> reverseMappings info = None"
  shows "\<forall>u info. fold (\<lambda>(m, l, c). registerSources m) calls infos u = Some info
           \<longrightarrow> reverseMappings info = None"
  using assms
proof (induction calls arbitrary: infos)
  case Nil
  then show ?case by simp
next
  case (Cons call calls)
  obtain m l c where call: "call = (m, l, c)" by (cases call) auto
  from registerSources_fresh [OF Cons.prems, of m]
  show ?case
    using Cons.IH [of "registerSources m infos"] by (simp add: call)
qed

lemma inv_newSourceMap: "\<exists>js. SourceMap_inv js (newSourceMap u payload)"
proof -
  have "\<forall>v info. p_sourceInfos (newSourceMap u payload) v = Some info
          \<longrightarrow> reverseMappings info = None"
    using fold_registerSources_fresh [of Map.empty "forEachSection payload"]
    by (simp add: newSourceMap_def)
  moreover have "p_mappings (newSourceMap u payload) = None"
    "p_json (newSourceMap u payload) \<noteq> None"
    by (simp_all add: newSourceMap_def)
  ultimately show ?thesis
    unfolding SourceMap_inv_def by fastforce
qed

lemma inv_mappings:
  assumes "SourceMap_inv js sm"
  shows "\<exists>sm'. SourceMap_mappings sm = Inr (allMappings js, sm') \<and> SourceMap_inv js sm'
           \<and> p_mappings sm' = Some (allMappings js) \<and> p_sourceInfos sm' = p_sourceInfos sm"
  using assms
  by (auto simp: SourceMap_inv_def SourceMap_mappings_def allMappings_def Let_def)

lemma inv_reversedMappings:
  assumes "SourceMap_inv js sm"
  shows "\<exists>sm'. reversedMappings sm u =
            Inr (if u \<in> dom (p_sourceInfos sm) then reverseOf (allMappings js) u else [], sm')
           \<and> SourceMap_inv js sm' \<and> dom (p_sourceInfos sm') = dom (p_sourceInfos sm)"
proof -
  from inv_mappings [OF assms] obtain sm1 where
    m: "SourceMap_mappings sm = Inr (allMappings js, sm1)" and i1: "SourceMap_inv js sm1"
    and c1: "p_mappings sm1 = Some (allMappings js)" and s1: "p_sourceInfos sm1 = p_sourceInfos sm"
    by blast
  show ?thesis
  proof (cases "p_sourceInfos sm u")
    case None
    with m i1 s1 show ?thesis
      by (auto simp: reversedMappings_def dom_def)
  next
    case (Some info)
    show ?thesis
    proof (cases "reverseMappings info")
      case None
      let ?sm' = "sm1\<lparr>p_sourceInfos := (p_sourceInfos sm1)(u \<mapsto>
                     info\<lparr>reverseMappings := Some (reverseOf (allMappings js) u)\<rparr>)\<rparr>"
      have "reversedMappings sm u = Inr (reverseOf (allMappings js) u, ?sm')"
        using m s1 Some None by (simp add: reversedMappings_def reverseOf_def Let_def)
      moreover have "SourceMap_inv js ?sm'"
        using i1 c1 by (auto simp: SourceMap_inv_def)
      moreover have "dom (p_sourceInfos ?sm') = dom (p_sourceInfos sm)"
        using s1 Some by auto
      ultimately show ?thesis using Some by (auto simp: dom_def)
    next
      case (Some rm)
      with \<open>p_sourceInfos sm u = Some info\<close> assms
      have "rm = reverseOf (allMappings js) u"
        unfolding SourceMap_inv_def by fastforce
      with Some \<open>p_sourceInfos sm u = Some info\<close> m i1 s1 show ?thesis
        by (auto simp: reversedMappings_def dom_def)
    qed
  qed
qed

lemma findEntry_state:
  assumes "findEntry sm l c = Inr (r, sm')"
  shows "\<exists>ms. SourceMap_mappings sm = Inr (ms, sm')"
  using assms by (auto simp: findEntry_def split: sum.splits prod.splits)

lemma findReverseEntry_state:
  assumes "findReverseEntry sm u l c = Inr (r, sm')"
  shows "\<exists>ms. reversedMappings sm u = Inr (ms, sm')"
  using assms
  by (auto simp: findReverseEntry_def Let_def split: sum.splits prod.splits if_splits)

lemma reachable_inv: "reachable sm \<Longrightarrow> \<exists>js. SourceMap_inv js sm"
proof (induction rule: reachable.induct)
  case (constructed u payload)
  show ?case by (rule inv_newSourceMap)
next
  case (after_mappings sm ms sm')
  then obtain js where "SourceMap_inv js sm" by blast
  from inv_mappings [OF this] after_mappings.hyps(2) show ?case by auto
next
  case (after_findEntry sm l c r sm')
  then obtain js where "SourceMap_inv js sm" by blast
  from inv_mappings [OF this] findEntry_state [OF after_findEntry.hyps(2)] show ?case by auto
next
  case (after_reversedMappings sm u ms sm')
  then obtain js where "SourceMap_inv js sm" by blast
  from inv_reversedMappings [OF this, of u] after_reversedMappings.hyps(2) show ?case by auto
next
  case (after_findReverseEntry sm u l c r sm')
  then obtain js where "SourceMap_inv js sm" by blast
  from inv_reversedMappings [OF this, of u] findReverseEntry_state [OF after_findReverseEntry.hyps(2)]
  show ?case by auto
qed

text \<open>
  Claim C7. For every \<open>SourceMap\<close> object, with or without sections, \<open>mappings()\<close> returns an
  array sorted by \<open>(lineNumber, columnNumber)\<close>, that is, under \<open>SourceMapEntry.compare\<close>. Every
  section is parsed into the one shared array and the array is sorted again at the end of
  each section; the array is kept and later calls return it.
\<close>

theorem mappings_sorted:
  assumes "reachable sm"
  shows "\<exists>ms sm'. SourceMap_mappings sm = Inr (ms, sm')
           \<and> sorted (map generatedPosition ms)
           \<and> sorted_wrt (\<lambda>entry1 entry2. compare entry1 entry2 \<le> 0) ms
           \<and> p_mappings sm' = Some ms
           \<and> SourceMap_mappings sm' = Inr (ms, sm')"
proof -
  from reachable_inv [OF assms] obtain js where "SourceMap_inv js sm" by blast
  from inv_mappings [OF this] obtain sm' where
    first: "SourceMap_mappings sm = Inr (allMappings js, sm')"
    and cached: "p_mappings sm' = Some (allMappings js)"
    by blast
  have "sorted (map generatedPosition (allMappings js))"
    by (rule sorted_allMappings)
  moreover from this have "sorted_wrt (\<lambda>entry1 entry2. compare entry1 entry2 \<le> 0) (allMappings js)"
    by (simp add: sorted_map compare_le_iff)
  moreover from cached have "SourceMap_mappings sm' = Inr (allMappings js, sm')"
    by (simp add: SourceMap_mappings_def)
  ultimately show ?thesis
    using first cached by blast
qed

theorem mappings_sorted_witness:
  "reachable (newSourceMap ''m.map'' examplePayload)
   \<and> (\<exists>ms sm'. SourceMap_mappings (newSourceMap ''m.map'' examplePayload) = Inr (ms, sm')
        \<and> map generatedPosition ms = [(0, 0), (0, 5), (1, 0)]
        \<and> sorted (map generatedPosition ms))"
proof -
  have r: "reachable (newSourceMap ''m.map'' examplePayload)"
    by (rule reachable.constructed)
  from mappings_sorted [OF r] obtain ms sm' where
    m: "SourceMap_mappings (newSourceMap ''m.map'' examplePayload) = Inr (ms, sm')"
    and s: "sorted (map generatedPosition ms)"
    by blast
  have "(case SourceMap_mappings (newSourceMap ''m.map'' examplePayload) of
           Inl e \<Rightarrow> [] | Inr (ms, sm') \<Rightarrow> map generatedPosition ms) = [(0, 0), (0, 5), (1, 0)]"
    by code_simp
  with m have "map generatedPosition ms = [(0, 0), (0, 5), (1, 0)]"
    by simp
  with r m s show ?thesis by auto
qed

section \<open>Properties of the lookups\<close>

subsection \<open>Binary search on a partitioned array\<close>

lemma upperBound_loop_partition:
  assumes "\<forall>i<k. cmp (xs ! i) \<ge> 0" and "\<forall>i. k \<le> i \<and> i < length xs \<longrightarrow> cmp (xs ! i) < 0"
    and "l \<le> k" "k \<le> r" "r \<le> length xs"
  shows "upperBound_loop xs cmp l r = Inr k"
  using assms
proof (induction xs cmp l r rule: upperBound_loop.induct)
  case (1 array comparator l r)
  note before = "1.prems"(1) and after = "1.prems"(2)
  show ?case
  proof (cases "l < r")
    case False
    with "1.prems" show ?thesis
      by (subst upperBound_loop.simps) simp
  next
    case True
    let ?m = "(l + r) div 2"
    from True "1.prems" have m: "l \<le> ?m" "?m < r" "?m < length array" by simp_all
    then have idx: "jsIndex array (int ?m) = Some (array ! ?m)"
      by (simp add: jsIndex_def)
    show ?thesis
    proof (cases "comparator (array ! ?m) \<ge> 0")
      case right: True
      have "?m < k"
      proof (rule ccontr)
        assume "\<not> ?m < k"
        with after m have "comparator (array ! ?m) < 0" by simp
        with right show False by simp
      qed
      with "1.IH"(1) [OF True idx right before after] "1.prems"
      have "upperBound_loop array comparator (?m + 1) r = Inr k" by simp
      with True idx right show ?thesis
        by (subst upperBound_loop.simps) simp
    next
      case left: False
      have "k \<le> ?m"
      proof (rule ccontr)
        assume "\<not> k \<le> ?m"
        with before have "comparator (array ! ?m) \<ge> 0" by simp
        with left show False by simp
      qed
      with "1.IH"(2) [OF True idx left before after] "1.prems" m
      have "upperBound_loop array comparator l ?m = Inr k" by simp
      with True idx left show ?thesis
        by (subst upperBound_loop.simps) simp
    qed
  qed
qed

lemma lowerBound_loop_partition:
  assumes "\<forall>i<k. cmp (xs ! i) > 0" and "\<forall>i. k \<le> i \<and> i < length xs \<longrightarrow> cmp (xs ! i) \<le> 0"
    and "l \<le> k" "k \<le> r" "r \<le> length xs"
  shows "lowerBound_loop xs cmp l r = Inr k"
  using assms
proof (induction xs cmp l r rule: lowerBound_loop.induct)
  case (1 array comparator l r)
  note before = "1.prems"(1) and after = "1.prems"(2)
  show ?case
  proof (cases "l < r")
    case False
    with "1.prems" show ?thesis
      by (subst lowerBound_loop.simps) simp
  next
    case True
    let ?m = "(l + r) div 2"
    from True "1.prems" have m: "l \<le> ?m" "?m < r" "?m < length array" by simp_all
    then have idx: "jsIndex array (int ?m) = Some (array ! ?m)"
      by (simp add: jsIndex_def)
    show ?thesis
    proof (cases "comparator (array ! ?m) > 0")
      case right: True
      have "?m < k"
      proof (rule ccontr)
        assume "\<not> ?m < k"
        with after m have "comparator (array ! ?m) \<le> 0" by simp
        with right show False by simp
      qed
      with "1.IH"(1) [OF True idx right before after] "1.prems"
      have "lowerBound_loop array comparator (?m + 1) r = Inr k" by simp
      with True idx right show ?thesis
        by (subst lowerBound_loop.simps) simp
    next
      case left: False
      have "k \<le> ?m"
      proof (rule ccontr)
        assume "\<not> k \<le> ?m"
        with before have "comparator (array ! ?m) > 0" by simp
        with left show False by simp
      qed
      with "1.IH"(2) [OF True idx left before after] "1.prems" m
      have "lowerBound_loop array comparator l ?m = Inr k" by simp
      with True idx left show ?thesis
        by (subst lowerBound_loop.simps) simp
    qed
  qed
qed

text \<open>A predicate that holds on a prefix of the array and nowhere after it.\<close>

lemma prefix_partition:
  assumes closed: "\<And>i j. i \<le> j \<Longrightarrow> j < length xs \<Longrightarrow> P (xs ! j) \<Longrightarrow> P (xs ! i)"
  shows "\<forall>i < length (filter P xs). P (xs ! i)"
    and "\<forall>i. length (filter P xs) \<le> i \<and> i < length xs \<longrightarrow> \<not> P (xs ! i)"
    and "filter P xs = take (length (filter P xs)) xs"
proof -
  define k where "k = length (takeWhile P xs)"
  have k_le: "k \<le> length xs"
    unfolding k_def by (rule length_takeWhile_le)
  have before: "P (xs ! i)" if "i < k" for i
  proof -
    from that have "takeWhile P xs ! i = xs ! i"
      unfolding k_def by (simp add: takeWhile_nth)
    moreover from that have "takeWhile P xs ! i \<in> set (takeWhile P xs)"
      unfolding k_def by (rule nth_mem)
    ultimately show ?thesis by (auto dest: set_takeWhileD)
  qed
  have after: "\<not> P (xs ! i)" if "k \<le> i" "i < length xs" for i
  proof
    assume "P (xs ! i)"
    with that closed [of k i] have "P (xs ! k)" by simp
    moreover from that have "k < length xs" by simp
    then have "\<not> P (xs ! k)" unfolding k_def by (rule nth_length_takeWhile)
    ultimately show False by simp
  qed
  have "filter P (take k xs) = take k xs"
    using before k_le by (auto simp: filter_id_conv in_set_conv_nth)
  moreover have "filter P (drop k xs) = []"
    using after by (auto simp: filter_empty_conv in_set_conv_nth)
  ultimately have "filter P (take k xs @ drop k xs) = take k xs"
    by (simp only: filter_append append_Nil2)
  then have f: "filter P xs = take k xs" by simp
  with k_le have "length (filter P xs) = k" by simp
  with before after f
  show "\<forall>i < length (filter P xs). P (xs ! i)"
    and "\<forall>i. length (filter P xs) \<le> i \<and> i < length xs \<longrightarrow> \<not> P (xs ! i)"
    and "filter P xs = take (length (filter P xs)) xs"
    by simp_all
qed

lemma upperBound_sorted:
  assumes "\<And>i j. i \<le> j \<Longrightarrow> j < length xs \<Longrightarrow> cmp (xs ! j) \<ge> 0 \<Longrightarrow> cmp (xs ! i) \<ge> 0"
  shows "upperBound xs cmp = Inr (length (filter (\<lambda>x. cmp x \<ge> 0) xs))"
proof -
  note part = prefix_partition [of xs "\<lambda>x. cmp x \<ge> 0", OF assms]
  have "\<forall>i. length (filter (\<lambda>x. cmp x \<ge> 0) xs) \<le> i \<and> i < length xs \<longrightarrow> cmp (xs ! i) < 0"
    using part(2) by (simp add: not_le)
  from upperBound_loop_partition [OF part(1) this, where l = 0 and r = "length xs"]
  show ?thesis by (simp add: upperBound_def)
qed

lemma lowerBound_sorted:
  assumes "\<And>i j. i \<le> j \<Longrightarrow> j < length xs \<Longrightarrow> cmp (xs ! j) > 0 \<Longrightarrow> cmp (xs ! i) > 0"
  shows "lowerBound xs cmp = Inr (length (filter (\<lambda>x. cmp x > 0) xs))"
proof -
  note part = prefix_partition [of xs "\<lambda>x. cmp x > 0", OF assms]
  have "\<forall>i. length (filter (\<lambda>x. cmp x > 0) xs) \<le> i \<and> i < length xs \<longrightarrow> cmp (xs ! i) \<le> 0"
    using part(2) by (simp add: not_less)
  from lowerBound_loop_partition [OF part(1) this, where l = 0 and r = "length xs"]
  show ?thesis by (simp add: lowerBound_def)
qed

lemma findEntry_comparator_iff:
  "jsOr (l - lineNumber e) (c - columnNumber e) \<ge> 0 \<longleftrightarrow> generatedPosition e \<le> (l, c)"
  by (auto simp: jsOr_def generatedPosition_def less_eq_prod_def)

text \<open>
  Claim C2. When the mappings are sorted by generated position, \<open>findEntry(line, col)\<close> returns
  the entry with the greatest \<open>(lineNumber, columnNumber)\<close> that is lexicographically at most
  \<open>(line, col)\<close>: the entry before the upper bound, which is the number of entries at or
  before the query. It returns \<open>undefined\<close> exactly when no entry is at or before the query,
  as on an empty array.
\<close>

theorem findEntry_greatest_le:
  assumes "SourceMap_mappings sm = Inr (ms, sm')" and "sorted (map generatedPosition ms)"
  shows "\<exists>r k. findEntry sm l c = Inr (r, sm')
           \<and> upperBound ms (\<lambda>entry. jsOr (l - lineNumber entry) (c - columnNumber entry)) = Inr k
           \<and> k = length (filter (\<lambda>e. generatedPosition e \<le> (l, c)) ms)
           \<and> r = (if k = 0 then None else Some (ms ! (k - 1)))
           \<and> (r = None \<longleftrightarrow> (\<forall>e \<in> set ms. \<not> generatedPosition e \<le> (l, c)))
           \<and> (\<forall>e. r = Some e \<longrightarrow> e \<in> set ms \<and> generatedPosition e \<le> (l, c)
                 \<and> (\<forall>e' \<in> set ms. generatedPosition e' \<le> (l, c)
                       \<longrightarrow> generatedPosition e' \<le> generatedPosition e))"
proof -
  let ?cmp = "\<lambda>entry. jsOr (l - lineNumber entry) (c - columnNumber entry)"
  let ?P = "\<lambda>e. generatedPosition e \<le> (l, c)"
  define k where "k = length (filter ?P ms)"
  define r where "r = (if k = 0 then None else Some (ms ! (k - 1)))"
  have mono: "generatedPosition (ms ! i) \<le> generatedPosition (ms ! j)"
    if "i \<le> j" "j < length ms" for i j
    using assms(2) that by (simp add: sorted_iff_nth_mono)
  have closed: "?P (ms ! i)" if "i \<le> j" "j < length ms" "?P (ms ! j)" for i j
    using mono [OF that(1,2)] that(3) by (rule order_trans)
  have part: "\<forall>i<k. ?P (ms ! i)" "\<forall>i. k \<le> i \<and> i < length ms \<longrightarrow> \<not> ?P (ms ! i)"
    unfolding k_def
    by (rule prefix_partition, blast intro: closed)+
  have k_le: "k \<le> length ms"
    unfolding k_def by (rule length_filter_le)
  have ub: "upperBound ms ?cmp = Inr k"
    using upperBound_sorted [of ms ?cmp] closed
    by (simp add: findEntry_comparator_iff k_def)
  have "nat (int k - 1) = k - 1"
    by simp
  then have run: "findEntry sm l c = Inr (r, sm')"
    using assms(1) ub k_le by (auto simp: findEntry_def r_def jsIndex_def)
  have none: "r = None \<longleftrightarrow> (\<forall>e \<in> set ms. \<not> ?P e)"
    by (simp add: r_def k_def filter_empty_conv)
  have some: "e \<in> set ms \<and> ?P e \<and> (\<forall>e' \<in> set ms. ?P e' \<longrightarrow> generatedPosition e' \<le> generatedPosition e)"
    if "r = Some e" for e
  proof -
    from that have k: "0 < k" and e: "e = ms ! (k - 1)"
      by (auto simp: r_def split: if_splits)
    with k_le have "e \<in> set ms" by simp
    moreover from part(1) k e have "?P e" by simp
    moreover have "generatedPosition e' \<le> generatedPosition e" if "e' \<in> set ms" "?P e'" for e'
    proof -
      from that(1) obtain i where i: "i < length ms" "e' = ms ! i"
        by (auto simp: in_set_conv_nth)
      with that(2) part(2) have "i < k" by (meson not_le_imp_less)
      with k k_le i e show ?thesis using mono [of i "k - 1"] by simp
    qed
    ultimately show ?thesis by blast
  qed
  show ?thesis
  proof (intro exI conjI)
    show "findEntry sm l c = Inr (r, sm')" by (rule run)
    show "upperBound ms ?cmp = Inr k" by (rule ub)
    show "k = length (filter ?P ms)" by (rule k_def)
    show "r = (if k = 0 then None else Some (ms ! (k - 1)))" by (rule r_def)
    show "r = None \<longleftrightarrow> (\<forall>e \<in> set ms. \<not> ?P e)" by (rule none)
    show "\<forall>e. r = Some e \<longrightarrow> e \<in> set ms \<and> ?P e
            \<and> (\<forall>e' \<in> set ms. ?P e' \<longrightarrow> generatedPosition e' \<le> generatedPosition e)"
      using some by blast
  qed
qed

theorem findEntry_greatest_le_witness:
  "\<exists>ms sm' e. SourceMap_mappings (newSourceMap ''m.map'' examplePayload) = Inr (ms, sm')
      \<and> map generatedPosition ms = [(0, 0), (0, 5), (1, 0)]
      \<and> sorted (map generatedPosition ms)
      \<and> findEntry (newSourceMap ''m.map'' examplePayload) 0 7 = Inr (Some e, sm')
      \<and> generatedPosition e = (0, 5)
      \<and> map_sum id fst (findEntry (newSourceMap ''m.map'' examplePayload) (- 1) 0) = Inr None"
proof -
  let ?sm = "newSourceMap ''m.map'' examplePayload"
  obtain ms sm' where m: "SourceMap_mappings ?sm = Inr (ms, sm')"
    using mappings_newSourceMap [of "''m.map''" examplePayload] by blast
  have "(case SourceMap_mappings ?sm of
           Inl e \<Rightarrow> [] | Inr (ms, sm') \<Rightarrow> map generatedPosition ms) = [(0, 0), (0, 5), (1, 0)]"
    by code_simp
  with m have pos: "map generatedPosition ms = [(0, 0), (0, 5), (1, 0)]"
    by simp
  then have srt: "sorted (map generatedPosition ms)"
    by simp
  from findEntry_greatest_le [OF m srt, of 0 7]
  obtain r where run: "findEntry ?sm 0 7 = Inr (r, sm')"
    by blast
  have "map_sum id (map_option generatedPosition \<circ> fst) (findEntry ?sm 0 7) = Inr (Some (0, 5))"
    by code_simp
  with run obtain e where e: "r = Some e" "generatedPosition e = (0, 5)"
    by auto
  have none: "map_sum id fst (findEntry ?sm (- 1) 0) = Inr None"
    by code_simp
  from m pos srt run e none show ?thesis
    by auto
qed

subsection \<open>The reverse lookup\<close>

lemma parseStep_hasSourcePosition:
  assumes "parseStep srcs nms st = Some (st', e)"
  shows "hasSourcePosition e"
  using assms
  by (auto simp: parseStep_def Let_def hasSourcePosition_def newSourceMapEntry_def
           split: if_splits prod.splits)

lemma parseLoop_hasSourcePosition:
  assumes "\<forall>e \<in> set ms. hasSourcePosition e"
  shows "\<forall>e \<in> set (parseLoop srcs nms st ms). hasSourcePosition e"
  using assms
proof (induction srcs nms st ms rule: parseLoop.induct)
  case (1 srcs nms st ms)
  show ?case
  proof (cases "parseStep srcs nms st")
    case None
    with "1.prems" show ?thesis
      by (subst parseLoop.simps) simp
  next
    case (Some x)
    obtain st' e where x: "x = (st', e)" by (cases x) auto
    with Some have "hasSourcePosition e"
      by (auto dest: parseStep_hasSourcePosition)
    with "1.prems" have "\<forall>a \<in> set (ms @ [e]). hasSourcePosition a" by simp
    from "1.IH" [OF Some x [symmetric] this] Some x show ?thesis
      by (subst parseLoop.simps) simp
  qed
qed

lemma parseMap_hasSourcePosition:
  assumes "\<forall>e \<in> set ms. hasSourcePosition e"
  shows "\<forall>e \<in> set (parseMap ms m l c). hasSourcePosition e"
  unfolding parseMap_def set_arraySort
  by (rule parseLoop_hasSourcePosition [OF assms])

lemma fold_parseMap_hasSourcePosition:
  assumes "\<forall>e \<in> set ms. hasSourcePosition e"
  shows "\<forall>e \<in> set (fold (\<lambda>(m, l, c) acc. parseMap acc m l c) calls ms). hasSourcePosition e"
  using assms
proof (induction calls arbitrary: ms)
  case Nil
  then show ?case by simp
next
  case (Cons call calls)
  obtain m l c where call: "call = (m, l, c)" by (cases call) auto
  from parseMap_hasSourcePosition [OF Cons.prems, of m l c]
  show ?case using Cons.IH [of "parseMap ms m l c"] by (simp add: call)
qed

lemma allMappings_hasSourcePosition: "e \<in> set (allMappings js) \<Longrightarrow> hasSourcePosition e"
  using fold_parseMap_hasSourcePosition [of "[]" "forEachSection js"]
  by (simp add: allMappings_def)

lemma sourceMappingComparator_le_iff:
  assumes "sourceLineNumber a \<noteq> None" "sourceColumnNumber a \<noteq> None"
    "sourceLineNumber b \<noteq> None" "sourceColumnNumber b \<noteq> None"
  shows "sourceMappingComparator a b \<le> 0 \<longleftrightarrow> sourceKey a \<le> sourceKey b"
  using assms
  by (auto simp: sourceMappingComparator_def sourceKey_def orZero_def less_eq_prod_def
      less_prod_def)

lemma set_reverseOf: "set (reverseOf ms u) = {e \<in> set ms. sourceUrl e = Some u}"
  by (auto simp: reverseOf_def set_arraySort)

lemma sorted_reverseOf:
  assumes "\<forall>e \<in> set ms. hasSourcePosition e"
  shows "sorted (map sourceKey (reverseOf ms u))"
proof -
  define A :: "SourceMapEntry set" where "A = {e. sourceLineNumber e \<noteq> None \<and> sourceColumnNumber e \<noteq> None}"
  have sub: "set (filter (\<lambda>mapping. sourceUrl mapping = Some u) ms) \<subseteq> A"
    using assms by (auto simp: A_def hasSourcePosition_def)
  have "sorted_wrt (\<lambda>a b. sourceMappingComparator a b \<le> 0) (reverseOf ms u)"
    unfolding reverseOf_def
  proof (rule sorted_arraySort [of A, OF _ _ sub])
    show "sourceMappingComparator a b \<le> 0 \<or> sourceMappingComparator b a \<le> 0"
      if "a \<in> A" "b \<in> A" for a b
      using that by (auto simp: A_def sourceMappingComparator_le_iff)
    show "sourceMappingComparator a c \<le> 0"
      if "a \<in> A" "b \<in> A" "c \<in> A" "sourceMappingComparator a b \<le> 0"
        "sourceMappingComparator b c \<le> 0" for a b c
      using that by (auto simp: A_def sourceMappingComparator_le_iff)
  qed
  moreover have "sourceKey a \<le> sourceKey b"
    if "a \<in> set (reverseOf ms u)" "b \<in> set (reverseOf ms u)"
      "sourceMappingComparator a b \<le> 0" for a b
  proof -
    from that(1,2) sub have "a \<in> A" "b \<in> A"
      by (auto simp: reverseOf_def set_arraySort)
    with that(3) show ?thesis
      by (simp add: A_def sourceMappingComparator_le_iff)
  qed
  ultimately have "sorted_wrt (\<lambda>a b. sourceKey a \<le> sourceKey b) (reverseOf ms u)"
    using sorted_wrt_mono_rel [of "reverseOf ms u" "\<lambda>a b. sourceMappingComparator a b \<le> 0"
        "\<lambda>a b. sourceKey a \<le> sourceKey b"]
    by blast
  then show ?thesis by (simp add: sorted_map)
qed

lemma sourceKey_line_mono:
  assumes "sorted (map sourceKey rm)" "i \<le> j" "j < length rm"
  shows "orZero (sourceLineNumber (rm ! i)) \<le> orZero (sourceLineNumber (rm ! j))"
proof -
  from assms have "sourceKey (rm ! i) \<le> sourceKey (rm ! j)"
    by (simp add: sorted_iff_nth_mono)
  then show ?thesis
    by (auto simp: sourceKey_def less_eq_prod_def)
qed

lemma in_set_drop_nth:
  assumes "x \<in> set (drop n xs)"
  shows "\<exists>i. n \<le> i \<and> i < length xs \<and> xs ! i = x"
proof -
  from assms obtain j where "j < length xs - n" "drop n xs ! j = x"
    by (auto simp: in_set_conv_nth)
  then have "n \<le> n + j \<and> n + j < length xs \<and> xs ! (n + j) = x"
    by simp
  then show ?thesis by blast
qed

lemma line_block:
  fixes rm :: "SourceMapEntry list" and l :: int
  assumes srt: "sorted (map sourceKey rm)"
  defines "first \<equiv> length (filter (\<lambda>e. orZero (sourceLineNumber e) < l) rm)"
  defines "last' \<equiv> length (filter (\<lambda>e. orZero (sourceLineNumber e) \<le> l) rm)"
  shows "lowerBound rm (\<lambda>mapping. l - orZero (sourceLineNumber mapping)) = Inr first"
    and "upperBound rm (\<lambda>mapping. l - orZero (sourceLineNumber mapping)) = Inr last'"
    and "slice rm first last' = filter (\<lambda>e. orZero (sourceLineNumber e) = l) rm"
    and "(first \<ge> length rm \<or> orZero (sourceLineNumber (rm ! first)) \<noteq> l)
          \<longleftrightarrow> filter (\<lambda>e. orZero (sourceLineNumber e) = l) rm = []"
proof -
  let ?sl = "\<lambda>e. orZero (sourceLineNumber e)"
  note mono = sourceKey_line_mono [OF srt]
  have closed_lt: "?sl (rm ! i) < l" if "i \<le> j" "j < length rm" "?sl (rm ! j) < l" for i j
    using mono [OF that(1,2)] that(3) by simp
  have closed_le: "?sl (rm ! i) \<le> l" if "i \<le> j" "j < length rm" "?sl (rm ! j) \<le> l" for i j
    using mono [OF that(1,2)] that(3) by simp
  have lt: "\<forall>i<first. ?sl (rm ! i) < l"
    "\<forall>i. first \<le> i \<and> i < length rm \<longrightarrow> \<not> ?sl (rm ! i) < l"
    "filter (\<lambda>e. ?sl e < l) rm = take first rm"
    unfolding first_def by (rule prefix_partition, blast intro: closed_lt)+
  have le: "\<forall>i<last'. ?sl (rm ! i) \<le> l"
    "\<forall>i. last' \<le> i \<and> i < length rm \<longrightarrow> \<not> ?sl (rm ! i) \<le> l"
    "filter (\<lambda>e. ?sl e \<le> l) rm = take last' rm"
    unfolding last'_def by (rule prefix_partition, blast intro: closed_le)+
  have first_le: "first \<le> length rm" and last_le: "last' \<le> length rm"
    unfolding first_def last'_def by (rule length_filter_le)+
  have order: "first \<le> last'"
  proof (rule ccontr)
    assume "\<not> first \<le> last'"
    then have "last' < first" by simp
    with lt(1) have "?sl (rm ! last') < l" by simp
    moreover from \<open>last' < first\<close> first_le le(2) have "\<not> ?sl (rm ! last') \<le> l" by simp
    ultimately show False by simp
  qed
  show "lowerBound rm (\<lambda>mapping. l - ?sl mapping) = Inr first"
    using lowerBound_sorted [of rm "\<lambda>mapping. l - ?sl mapping"] closed_lt
    by (simp add: first_def)
  show "upperBound rm (\<lambda>mapping. l - ?sl mapping) = Inr last'"
    using upperBound_sorted [of rm "\<lambda>mapping. l - ?sl mapping"] closed_le
    by (simp add: last'_def)
  have split: "rm = take first rm @ slice rm first last' @ drop last' rm"
  proof -
    have "take last' rm = take first rm @ take (last' - first) (drop first rm)"
      using order take_add [of first "last' - first" rm] by simp
    then have "take first rm @ slice rm first last' @ drop last' rm = take last' rm @ drop last' rm"
      by (simp add: slice_def)
    then show ?thesis by simp
  qed
  have f1: "filter (\<lambda>e. ?sl e = l) (take first rm) = []"
  proof -
    have "filter (\<lambda>e. ?sl e = l) (filter (\<lambda>e. ?sl e < l) rm) = []"
      by (auto simp: filter_empty_conv)
    then show ?thesis by (simp only: lt(3))
  qed
  have f3: "filter (\<lambda>e. ?sl e = l) (drop last' rm) = []"
    using le(2) by (auto simp: filter_empty_conv dest!: in_set_drop_nth)
  have f2: "filter (\<lambda>e. ?sl e = l) (slice rm first last') = slice rm first last'"
  proof -
    have "?sl e = l" if "e \<in> set (slice rm first last')" for e
    proof -
      from that have "e \<in> set (drop first rm)"
        unfolding slice_def by (rule in_set_takeD)
      then have ge: "\<not> ?sl e < l"
        using lt(2) by (auto dest!: in_set_drop_nth)
      from that split have "e \<in> set (take last' rm)"
        using order take_add [of first "last' - first" rm] by (simp add: slice_def)
      then have "e \<in> set (filter (\<lambda>e. ?sl e \<le> l) rm)"
        by (simp only: le(3))
      with ge show ?thesis by simp
    qed
    then show ?thesis by (simp add: filter_id_conv)
  qed
  have "filter (\<lambda>e. ?sl e = l) rm
      = filter (\<lambda>e. ?sl e = l) (take first rm @ slice rm first last' @ drop last' rm)"
    using split by simp
  then show block: "slice rm first last' = filter (\<lambda>e. ?sl e = l) rm"
    by (simp only: filter_append f1 f2 f3 append_Nil append_Nil2)
  show "(first \<ge> length rm \<or> ?sl (rm ! first) \<noteq> l) \<longleftrightarrow> filter (\<lambda>e. ?sl e = l) rm = []"
  proof
    assume none: "filter (\<lambda>e. ?sl e = l) rm = []"
    show "first \<ge> length rm \<or> ?sl (rm ! first) \<noteq> l"
    proof (rule ccontr)
      assume "\<not> (first \<ge> length rm \<or> ?sl (rm ! first) \<noteq> l)"
      then have "rm ! first \<in> set rm" "?sl (rm ! first) = l" by simp_all
      with none show False by (auto simp: filter_empty_conv)
    qed
  next
    assume a: "first \<ge> length rm \<or> ?sl (rm ! first) \<noteq> l"
    show "filter (\<lambda>e. ?sl e = l) rm = []"
    proof (rule ccontr)
      assume "filter (\<lambda>e. ?sl e = l) rm \<noteq> []"
      then obtain i where i: "i < length rm" "?sl (rm ! i) = l"
        by (auto simp: filter_empty_conv in_set_conv_nth)
      with lt(1) have "first \<le> i" by (meson not_le_imp_less less_irrefl)
      with i have "first < length rm" by simp
      moreover from lt(2) this have "l \<le> ?sl (rm ! first)" by (auto simp: not_less)
      moreover from mono [OF \<open>first \<le> i\<close> i(1)] i(2) have "?sl (rm ! first) \<le> l" by simp
      ultimately show False using a by simp
    qed
  qed
qed

lemma column_pick:
  fixes cm :: "SourceMapEntry list" and c :: int
  assumes srt: "sorted (map sourceKey cm)"
    and same: "\<forall>e \<in> set cm. orZero (sourceLineNumber e) = l"
  defines "index \<equiv> length (filter (\<lambda>e. orZero (sourceColumnNumber e) < c) cm)"
  shows "lowerBound cm (\<lambda>mapping. c - orZero (sourceColumnNumber mapping)) = Inr index"
    and "index < length cm \<Longrightarrow> c \<le> orZero (sourceColumnNumber (cm ! index))
          \<and> (\<forall>e' \<in> set cm. c \<le> orZero (sourceColumnNumber e')
                \<longrightarrow> sourceKey (cm ! index) \<le> sourceKey e')"
    and "index \<ge> length cm \<Longrightarrow>
          (\<forall>e' \<in> set cm. orZero (sourceColumnNumber e') < c
              \<and> sourceKey e' \<le> sourceKey (cm ! (length cm - 1)))"
proof -
  let ?sc = "\<lambda>e. orZero (sourceColumnNumber e)"
  have key_mono: "sourceKey (cm ! i) \<le> sourceKey (cm ! j)" if "i \<le> j" "j < length cm" for i j
    using srt that by (simp add: sorted_iff_nth_mono)
  have mono: "?sc (cm ! i) \<le> ?sc (cm ! j)" if "i \<le> j" "j < length cm" for i j
  proof -
    from that same have "orZero (sourceLineNumber (cm ! i)) = orZero (sourceLineNumber (cm ! j))"
      by simp
    with key_mono [OF that] show ?thesis
      by (auto simp: sourceKey_def less_eq_prod_def)
  qed
  have closed: "?sc (cm ! i) < c" if "i \<le> j" "j < length cm" "?sc (cm ! j) < c" for i j
    using mono [OF that(1,2)] that(3) by simp
  have part: "\<forall>i<index. ?sc (cm ! i) < c"
    "\<forall>i. index \<le> i \<and> i < length cm \<longrightarrow> \<not> ?sc (cm ! i) < c"
    unfolding index_def by (rule prefix_partition, blast intro: closed)+
  show "lowerBound cm (\<lambda>mapping. c - ?sc mapping) = Inr index"
    using lowerBound_sorted [of cm "\<lambda>mapping. c - ?sc mapping"] closed
    by (simp add: index_def)
  show "c \<le> ?sc (cm ! index)
      \<and> (\<forall>e' \<in> set cm. c \<le> ?sc e' \<longrightarrow> sourceKey (cm ! index) \<le> sourceKey e')"
    if lt: "index < length cm"
  proof
    from part(2) lt show "c \<le> ?sc (cm ! index)" by (auto simp: not_less)
    show "\<forall>e' \<in> set cm. c \<le> ?sc e' \<longrightarrow> sourceKey (cm ! index) \<le> sourceKey e'"
    proof (intro ballI impI)
      fix e' assume "e' \<in> set cm" "c \<le> ?sc e'"
      then obtain j where j: "j < length cm" "e' = cm ! j" "c \<le> ?sc (cm ! j)"
        by (auto simp: in_set_conv_nth)
      with part(1) have "index \<le> j" by (meson not_le_imp_less not_less)
      with j key_mono show "sourceKey (cm ! index) \<le> sourceKey e'" by simp
    qed
  qed
  show "\<forall>e' \<in> set cm. ?sc e' < c \<and> sourceKey e' \<le> sourceKey (cm ! (length cm - 1))"
    if ge: "index \<ge> length cm"
  proof
    fix e' assume "e' \<in> set cm"
    then obtain j where j: "j < length cm" "e' = cm ! j"
      by (auto simp: in_set_conv_nth)
    with ge part(1) have "?sc e' < c" by simp
    moreover from j key_mono [of j "length cm - 1"]
    have "sourceKey e' \<le> sourceKey (cm ! (length cm - 1))" by simp
    ultimately show "?sc e' < c \<and> sourceKey e' \<le> sourceKey (cm ! (length cm - 1))" ..
  qed
qed

lemma findReverseEntry_result:
  fixes l c :: int
  assumes rev: "reversedMappings sm u = Inr (rm, sm')"
    and srt: "sorted (map sourceKey rm)"
    and pos: "\<forall>e \<in> set rm. sourceLineNumber e \<noteq> None"
  defines "cm \<equiv> filter (\<lambda>e. sourceLineNumber e = Some l) rm"
  defines "index \<equiv> length (filter (\<lambda>e. orZero (sourceColumnNumber e) < c) cm)"
  shows "findReverseEntry sm u l c =
           Inr (if cm = [] then None
                else if index \<ge> length cm then Some (cm ! (length cm - 1))
                else Some (cm ! index), sm')"
proof -
  let ?sl = "\<lambda>e. orZero (sourceLineNumber e)"
  define first where "first = length (filter (\<lambda>e. ?sl e < l) rm)"
  define last' where "last' = length (filter (\<lambda>e. ?sl e \<le> l) rm)"
  note lb = line_block [OF srt, of l, folded first_def last'_def]
  have same_eq: "(?sl e = l) = (sourceLineNumber e = Some l)" if "e \<in> set rm" for e
    using pos that by (auto simp: orZero_def)
  then have cm_eq: "filter (\<lambda>e. ?sl e = l) rm = cm"
    unfolding cm_def by (auto intro: filter_cong)
  have guard: "(first \<ge> length rm \<or> sourceLineNumber (rm ! first) \<noteq> Some l) \<longleftrightarrow> cm = []"
  proof (cases "first < length rm")
    case True
    then have "rm ! first \<in> set rm" by simp
    from same_eq [OF this] lb(4) cm_eq True show ?thesis by simp
  next
    case False
    with lb(4) cm_eq show ?thesis by simp
  qed
  have slice_eq: "slice rm first last' = cm"
    using lb(3) cm_eq by simp
  have cm_sorted: "sorted (map sourceKey cm)"
    unfolding cm_def using srt by (simp add: sorted_map sorted_wrt_filter)
  have cm_same: "\<forall>e \<in> set cm. ?sl e = l"
    by (auto simp: cm_def orZero_def)
  note cp = column_pick [OF cm_sorted cm_same, of c, folded index_def]
  show ?thesis
  proof (cases "cm = []")
    case True
    with guard rev lb(1,2) show ?thesis
      by (simp add: findReverseEntry_def)
  next
    case False
    with guard have g: "\<not> (first \<ge> length rm \<or> sourceLineNumber (rm ! first) \<noteq> Some l)"
      by simp
    have last_entry: "jsIndex cm (int (length cm) - 1) = Some (cm ! (length cm - 1))"
    proof -
      from False have "0 < length cm" by simp
      then have "nat (int (length cm) - 1) = length cm - 1" "length cm - 1 < length cm"
        "0 \<le> int (length cm) - 1"
        by simp_all
      then show ?thesis by (simp add: jsIndex_def)
    qed
    show ?thesis
    proof (cases "index \<ge> length cm")
      case True
      with rev lb(1,2) g slice_eq False cp(1) last_entry show ?thesis
        by (simp add: findReverseEntry_def Let_def)
    next
      case lt: False
      then have "jsIndex cm (int index) = Some (cm ! index)"
        by (simp add: jsIndex_def)
      with rev lb(1,2) g slice_eq False cp(1) lt show ?thesis
        by (simp add: findReverseEntry_def Let_def)
    qed
  qed
qed

text \<open>
  Claim C3 as the specification words it fails: the source \<open>a.ts\<close> has an entry at source
  position \<open>(5, 0)\<close> and one at \<open>(6, 0)\<close>. For the query \<open>(5, 3)\<close> the smallest source position
  at or after the query is \<open>(6, 0)\<close>, but \<open>findReverseEntry\<close> returns the entry at \<open>(5, 0)\<close>: it
  never leaves the query's source line.
\<close>

theorem findReverseEntry_other_line_counterexample:
  "map_sum id fst (findReverseEntry (newSourceMap ''m.map'' reversePayload) ''a.ts'' 5 3)
     = Inr (Some \<lparr>lineNumber = 0, columnNumber = 0, sourceUrl = Some ''a.ts'',
                  sourceLineNumber = Some 5, sourceColumnNumber = Some 0, name = None\<rparr>)
   \<and> map_sum id fst (SourceMap_mappings (newSourceMap ''m.map'' reversePayload))
     = Inr (allMappings reversePayload)
   \<and> spec_find_reverse_entry (allMappings reversePayload) ''a.ts'' 5 3
     = Some \<lparr>lineNumber = 1, columnNumber = 0, sourceUrl = Some ''a.ts'',
             sourceLineNumber = Some 6, sourceColumnNumber = Some 0, name = None\<rparr>"
  by code_simp

lemma reverseOf_positions:
  assumes "\<forall>e \<in> set ms. hasSourcePosition e" and "e \<in> set (reverseOf ms u)"
  shows "sourceLineNumber e \<noteq> None" "sourceColumnNumber e \<noteq> None"
  using assms by (auto simp: set_reverseOf hasSourcePosition_def)

text \<open>
  Claim C3, amended. \<open>findReverseEntry(sourceUrl, line, col)\<close> looks only at the entries of
  that source whose source line is the query's line. Among them it returns the first one in
  source order with a source column at or after \<open>col\<close>; if there is none, the last one on
  that line. It returns \<open>undefined\<close> when the source has no entry on that line, and when the
  url is not a source of the map.
\<close>

theorem findReverseEntry_same_line:
  assumes "reachable sm"
  shows "\<exists>r ms sm1 sm'. SourceMap_mappings sm = Inr (ms, sm1)
           \<and> findReverseEntry sm u l c = Inr (r, sm')
           \<and> (u \<notin> dom (p_sourceInfos sm) \<longrightarrow> r = None)
           \<and> (u \<in> dom (p_sourceInfos sm) \<longrightarrow>
                (let R = {e \<in> set ms. sourceUrl e = Some u \<and> sourceLineNumber e = Some l} in
                   (R = {} \<longrightarrow> r = None) \<and>
                   (R \<noteq> {} \<longrightarrow> (\<exists>e \<in> R. r = Some e \<and>
                      (if \<exists>e' \<in> R. c \<le> orZero (sourceColumnNumber e')
                       then c \<le> orZero (sourceColumnNumber e)
                          \<and> (\<forall>e' \<in> R. c \<le> orZero (sourceColumnNumber e')
                                \<longrightarrow> sourceMappingComparator e e' \<le> 0)
                       else (\<forall>e' \<in> R. sourceMappingComparator e' e \<le> 0))))))"
proof -
  from reachable_inv [OF assms] obtain js where inv: "SourceMap_inv js sm" by blast
  define ms where "ms = allMappings js"
  define rm where "rm = (if u \<in> dom (p_sourceInfos sm) then reverseOf ms u else [])"
  from inv_mappings [OF inv] obtain sm1 where m: "SourceMap_mappings sm = Inr (ms, sm1)"
    unfolding ms_def by blast
  from inv_reversedMappings [OF inv, of u] obtain sm' where
    rev: "reversedMappings sm u = Inr (rm, sm')"
    unfolding rm_def ms_def by blast
  have wf: "\<forall>e \<in> set ms. hasSourcePosition e"
    unfolding ms_def by (auto intro: allMappings_hasSourcePosition)
  have srt: "sorted (map sourceKey rm)"
    unfolding rm_def using sorted_reverseOf [OF wf, of u] by simp
  have pos: "sourceLineNumber e \<noteq> None" "sourceColumnNumber e \<noteq> None" if "e \<in> set rm" for e
    using that reverseOf_positions [OF wf, of e u] by (auto simp: rm_def split: if_splits)
  define cm where "cm = filter (\<lambda>e. sourceLineNumber e = Some l) rm"
  define index where "index = length (filter (\<lambda>e. orZero (sourceColumnNumber e) < c) cm)"
  define r where "r = (if cm = [] then None
                else if index \<ge> length cm then Some (cm ! (length cm - 1))
                else Some (cm ! index))"
  have run: "findReverseEntry sm u l c = Inr (r, sm')"
    using findReverseEntry_result [OF rev srt, of l c] pos(1)
    unfolding r_def index_def cm_def by blast
  have cm_sorted: "sorted (map sourceKey cm)"
    unfolding cm_def using srt by (simp add: sorted_map sorted_wrt_filter)
  have cm_same: "\<forall>e \<in> set cm. orZero (sourceLineNumber e) = l"
    by (auto simp: cm_def orZero_def)
  note cp = column_pick [OF cm_sorted cm_same, of c, folded index_def]
  have cmp_iff: "sourceMappingComparator a b \<le> 0 \<longleftrightarrow> sourceKey a \<le> sourceKey b"
    if "a \<in> set cm" "b \<in> set cm" for a b
    using that pos by (intro sourceMappingComparator_le_iff) (auto simp: cm_def)
  have no_source: "r = None" if "u \<notin> dom (p_sourceInfos sm)"
    using that by (simp add: r_def cm_def rm_def)
  have known: "let R = {e \<in> set ms. sourceUrl e = Some u \<and> sourceLineNumber e = Some l} in
                   (R = {} \<longrightarrow> r = None) \<and>
                   (R \<noteq> {} \<longrightarrow> (\<exists>e \<in> R. r = Some e \<and>
                      (if \<exists>e' \<in> R. c \<le> orZero (sourceColumnNumber e')
                       then c \<le> orZero (sourceColumnNumber e)
                          \<and> (\<forall>e' \<in> R. c \<le> orZero (sourceColumnNumber e')
                                \<longrightarrow> sourceMappingComparator e e' \<le> 0)
                       else (\<forall>e' \<in> R. sourceMappingComparator e' e \<le> 0))))"
    if dom: "u \<in> dom (p_sourceInfos sm)"
  proof -
    define R where "R = {e \<in> set ms. sourceUrl e = Some u \<and> sourceLineNumber e = Some l}"
    have R: "set cm = R"
      using dom by (auto simp: cm_def rm_def R_def set_reverseOf)
    have empty: "r = None" if "R = {}"
      using that R by (simp add: r_def)
    have pick: "\<exists>e \<in> R. r = Some e \<and>
                      (if \<exists>e' \<in> R. c \<le> orZero (sourceColumnNumber e')
                       then c \<le> orZero (sourceColumnNumber e)
                          \<and> (\<forall>e' \<in> R. c \<le> orZero (sourceColumnNumber e')
                                \<longrightarrow> sourceMappingComparator e e' \<le> 0)
                       else (\<forall>e' \<in> R. sourceMappingComparator e' e \<le> 0))"
      if "R \<noteq> {}"
    proof (cases "index \<ge> length cm")
      case True
      from that R have ne: "cm \<noteq> []" by auto
      let ?e = "cm ! (length cm - 1)"
      from ne have mem: "?e \<in> set cm" by simp
      from ne True have "r = Some ?e" by (simp add: r_def)
      moreover from cp(3) [OF True] have "\<not> (\<exists>e' \<in> R. c \<le> orZero (sourceColumnNumber e'))"
        unfolding R [symmetric] by (auto simp: not_le)
      moreover from cp(3) [OF True] mem have "\<forall>e' \<in> R. sourceMappingComparator e' ?e \<le> 0"
        unfolding R [symmetric] by (simp add: cmp_iff)
      ultimately show ?thesis using mem R by auto
    next
      case False
      then have lt: "index < length cm" by simp
      let ?e = "cm ! index"
      from lt have mem: "?e \<in> set cm" by simp
      from lt have "r = Some ?e" by (auto simp: r_def)
      moreover from cp(2) [OF lt] have ge: "c \<le> orZero (sourceColumnNumber ?e)" by simp
      moreover from ge mem have "\<exists>e' \<in> R. c \<le> orZero (sourceColumnNumber e')"
        unfolding R [symmetric] by blast
      moreover from cp(2) [OF lt] mem
      have "\<forall>e' \<in> R. c \<le> orZero (sourceColumnNumber e') \<longrightarrow> sourceMappingComparator ?e e' \<le> 0"
        unfolding R [symmetric] by (simp add: cmp_iff)
      ultimately show ?thesis using mem R by auto
    qed
    from empty pick show ?thesis
      unfolding R_def [symmetric] Let_def by blast
  qed
  from m run no_source known show ?thesis by blast
qed

theorem findReverseEntry_same_line_witness:
  "reachable (newSourceMap ''m.map'' reversePayload)
   \<and> ''a.ts'' \<in> dom (p_sourceInfos (newSourceMap ''m.map'' reversePayload))
   \<and> (\<exists>r ms sm1 sm'.
        SourceMap_mappings (newSourceMap ''m.map'' reversePayload) = Inr (ms, sm1)
        \<and> findReverseEntry (newSourceMap ''m.map'' reversePayload) ''a.ts'' 5 3 = Inr (r, sm')
        \<and> r = Some \<lparr>lineNumber = 0, columnNumber = 0, sourceUrl = Some ''a.ts'',
                     sourceLineNumber = Some 5, sourceColumnNumber = Some 0, name = None\<rparr>
        \<and> r \<noteq> None)"
proof -
  let ?sm = "newSourceMap ''m.map'' reversePayload"
  have r: "reachable ?sm"
    by (rule reachable.constructed)
  have "p_sourceInfos ?sm ''a.ts'' \<noteq> None"
    by code_simp
  then have d: "''a.ts'' \<in> dom (p_sourceInfos ?sm)"
    by auto
  from findReverseEntry_same_line [OF r, of "''a.ts''" 5 3]
  obtain res ms sm1 sm' where m: "SourceMap_mappings ?sm = Inr (ms, sm1)"
    and run: "findReverseEntry ?sm ''a.ts'' 5 3 = Inr (res, sm')"
    by blast
  have "map_sum id fst (findReverseEntry ?sm ''a.ts'' 5 3)
     = Inr (Some \<lparr>lineNumber = 0, columnNumber = 0, sourceUrl = Some ''a.ts'',
                  sourceLineNumber = Some 5, sourceColumnNumber = Some 0, name = None\<rparr>)"
    by code_simp
  with run have "res = Some \<lparr>lineNumber = 0, columnNumber = 0, sourceUrl = Some ''a.ts'',
                  sourceLineNumber = Some 5, sourceColumnNumber = Some 0, name = None\<rparr>"
    by simp
  with r d m run show ?thesis by auto
qed

section \<open>Properties of loading\<close>

lemma substring_indexOf:
  "ch \<in> set s \<Longrightarrow> substring s (indexOf s ch) = dropWhile (\<lambda>x. x \<noteq> ch) s"
  by (simp add: substring_def indexOf_def dropWhile_eq_drop)

lemma substring_indexOf_absent:
  "ch \<notin> set s \<Longrightarrow> substring s (indexOf s ch) = s"
  by (simp add: substring_def indexOf_def)

lemma dropWhile_absent: "ch \<notin> set s \<Longrightarrow> dropWhile (\<lambda>x. x \<noteq> ch) s = []"
  by (induction s) auto

lemma dropWhile_present: "ch \<in> set s \<Longrightarrow> \<exists>rest. dropWhile (\<lambda>x. x \<noteq> ch) s = ch # rest"
  by (induction s) auto

text \<open>
  Claim C9. \<open>SourceMap.load\<close> never throws: a failed fetch and a failed parse both give
  \<open>undefined\<close>. A body that starts with \<open>)]}\<close> is parsed without its first line: the code
  keeps the line feed itself, which \<open>JSON.parse\<close> skips as white space, and a guarded body
  with no line feed is no JSON text either way. So for a parser that skips a leading line
  feed and rejects the empty text and a text that starts with \<open>)\<close>, as \<open>JSON.parse\<close> does,
  \<open>load\<close> is the specification's \<open>load\<close>.
\<close>

theorem load_strips_guard_and_is_silent:
  assumes white_space: "\<And>s. JSON_parse (lineFeed # s) = JSON_parse s"
    and no_paren: "\<And>s. isl (JSON_parse (CHR '')'' # s))"
    and no_empty: "isl (JSON_parse [])"
  shows "load fetch JSON_parse u = spec_load fetch JSON_parse u
       \<and> \<not> isl (load fetch JSON_parse u)
       \<and> (isl (fetch u) \<longrightarrow> load fetch JSON_parse u = Inr None)
       \<and> (\<forall>body. fetch u = Inr body \<and> isl (JSON_parse (spec_strip_xssi body))
             \<longrightarrow> load fetch JSON_parse u = Inr None)"
proof -
  have same: "(case JSON_parse (if take 3 body = '')]}''
                          then substring body (indexOf body lineFeed)
                          else body) of
                Inl e \<Rightarrow> Inr None
              | Inr payload \<Rightarrow> Inr (Some (newSourceMap u payload)))
      = (case JSON_parse (spec_strip_xssi body) of
             Inl e \<Rightarrow> (Inr None :: jsError + SourceMap option)
           | Inr payload \<Rightarrow> Inr (Some (newSourceMap u payload)))" for body
  proof (cases "take 3 body = '')]}''")
    case False
    then show ?thesis by (simp add: spec_strip_xssi_def)
  next
    case True
    show ?thesis
    proof (cases "lineFeed \<in> set body")
      case present: True
      from dropWhile_present [OF this] obtain rest where
        "dropWhile (\<lambda>x. x \<noteq> lineFeed) body = lineFeed # rest" by blast
      with True present show ?thesis
        by (simp add: spec_strip_xssi_def substring_indexOf white_space)
    next
      case absent: False
      from True obtain rest where "body = CHR '')'' # rest"
        by (cases body) auto
      with no_paren [of rest] have "isl (JSON_parse body)" by simp
      with True absent no_empty show ?thesis
        by (auto simp: spec_strip_xssi_def substring_indexOf_absent dropWhile_absent isl_def)
    qed
  qed
  have eq: "load fetch JSON_parse u = spec_load fetch JSON_parse u"
    unfolding load_def spec_load_def Let_def
    by (cases "fetch u") (simp_all add: same)
  moreover have "\<not> isl (spec_load fetch JSON_parse u)"
    by (auto simp: spec_load_def split: sum.splits)
  moreover have "isl (fetch u) \<longrightarrow> spec_load fetch JSON_parse u = Inr None"
    by (auto simp: spec_load_def isl_def)
  moreover have "\<forall>body. fetch u = Inr body \<and> isl (JSON_parse (spec_strip_xssi body))
             \<longrightarrow> spec_load fetch JSON_parse u = Inr None"
    by (auto simp: spec_load_def isl_def)
  ultimately show ?thesis by simp
qed

theorem load_strips_guard_and_is_silent_witness:
  "load (\<lambda>u. Inr ('')]}' guard'' @ [lineFeed] @ ''{\"version\":3,\"sources\":[],\"mappings\":\"\"}''))
      exampleParse ''m.map''
     = Inr (Some (newSourceMap ''m.map'' (SourceMapV3 3 None [] None None [] None None)))
   \<and> load (\<lambda>u. Inl NetworkError) exampleParse ''m.map'' = Inr None
   \<and> load (\<lambda>u. Inr '')]}' no line feed'') exampleParse ''m.map'' = Inr None
   \<and> load (\<lambda>u. Inr ''not json'') exampleParse ''m.map'' = Inr None"
proof -
  have ws: "exampleParse (lineFeed # s) = exampleParse s" for s
    by (simp add: exampleParse_def)
  have np: "isl (exampleParse (CHR '')'' # s))" for s
    by (simp add: exampleParse_def lineFeed_def)
  have ne: "isl (exampleParse [])"
    by (simp add: exampleParse_def)
  note inst = load_strips_guard_and_is_silent [of exampleParse, OF ws np ne]
  have "spec_load (\<lambda>u. Inr ('')]}' guard'' @ [lineFeed] @ ''{\"version\":3,\"sources\":[],\"mappings\":\"\"}''))
      exampleParse ''m.map''
     = Inr (Some (newSourceMap ''m.map'' (SourceMapV3 3 None [] None None [] None None)))"
    by (simp add: spec_load_def spec_strip_xssi_def exampleParse_def lineFeed_def)
  moreover have "spec_load (\<lambda>u. Inl NetworkError) exampleParse ''m.map'' = Inr None"
    by (simp add: spec_load_def)
  moreover have "spec_load (\<lambda>u. Inr '')]}' no line feed'') exampleParse ''m.map'' = Inr None"
    by (simp add: spec_load_def spec_strip_xssi_def exampleParse_def lineFeed_def)
  moreover have "spec_load (\<lambda>u. Inr ''not json'') exampleParse ''m.map'' = Inr None"
    by (simp add: spec_load_def spec_strip_xssi_def exampleParse_def lineFeed_def)
  ultimately show ?thesis
    using inst by simp
qed

section \<open>Properties of stackTrace.ts\<close>

lemma grows_refl: "grows a a"
  by (simp add: grows_def)

lemma grows_trans:
  assumes "grows a b" "grows b c"
  shows "grows a c"
proof -
  from assms(1) obtain new1 where 1: "snd a \<le> snd b" "p_thread (fst b) = p_thread (fst a)"
    "\<forall>i \<le> snd a. p_frameById (fst b) i = p_frameById (fst a) i"
    "p_frames (fst b) = p_frames (fst a) @ new1"
    "\<forall>f \<in> set new1. snd a < frame_id f \<and> frame_id f \<le> snd b
        \<and> p_frameById (fst b) (frame_id f) = Some f"
    unfolding grows_def by blast
  from assms(2) obtain new2 where 2: "snd b \<le> snd c" "p_thread (fst c) = p_thread (fst b)"
    "\<forall>i \<le> snd b. p_frameById (fst c) i = p_frameById (fst b) i"
    "p_frames (fst c) = p_frames (fst b) @ new2"
    "\<forall>f \<in> set new2. snd b < frame_id f \<and> frame_id f \<le> snd c
        \<and> p_frameById (fst c) (frame_id f) = Some f"
    unfolding grows_def by blast
  show ?thesis
    unfolding grows_def
  proof (intro conjI exI [of _ "new1 @ new2"] ballI allI impI)
    show "snd a \<le> snd c"
      using 1(1) 2(1) by (rule order_trans)
    show "p_thread (fst c) = p_thread (fst a)"
      using 1(2) 2(2) by (rule trans [rotated])
    show "p_frameById (fst c) i = p_frameById (fst a) i" if "i \<le> snd a" for i
    proof -
      from that 1(1) have "i \<le> snd b" by (rule order_trans)
      with 2(3) have "p_frameById (fst c) i = p_frameById (fst b) i" by blast
      also from that 1(3) have "\<dots> = p_frameById (fst a) i" by blast
      finally show ?thesis .
    qed
    show "p_frames (fst c) = p_frames (fst a) @ new1 @ new2"
      unfolding 2(4) 1(4) by (rule append_assoc)
  next
    fix f assume "f \<in> set (new1 @ new2)"
    then consider "f \<in> set new1" | "f \<in> set new2"
      by (auto simp only: set_append Un_iff)
    then have "snd a < frame_id f \<and> frame_id f \<le> snd c \<and> p_frameById (fst c) (frame_id f) = Some f"
    proof cases
      case 1
      with \<open>\<forall>f \<in> set new1. _\<close> have f: "snd a < frame_id f" "frame_id f \<le> snd b"
        "p_frameById (fst b) (frame_id f) = Some f" by blast+
      from f(2) 2(3) have "p_frameById (fst c) (frame_id f) = p_frameById (fst b) (frame_id f)"
        by blast
      with f 2(1) show ?thesis by (simp only: order_trans [OF f(2) 2(1)] simp_thms)
    next
      case 2
      with \<open>\<forall>f \<in> set new2. _\<close> have f: "snd b < frame_id f" "frame_id f \<le> snd c"
        "p_frameById (fst c) (frame_id f) = Some f" by blast+
      from 1(1) f(1) have "snd a < frame_id f" by (rule le_less_trans)
      with f show ?thesis by (simp only: simp_thms)
    qed
    then show "snd a < frame_id f" "frame_id f \<le> snd c"
      "p_frameById (fst c) (frame_id f) = Some f"
      by blast+
  qed
qed

lemma grows_appendFrame:
  assumes "frame_id f = n + 1"
  shows "grows (st, n) (appendFrame f st, n + 1)"
  unfolding grows_def fst_conv snd_conv
proof (intro conjI exI [of _ "[f]"] ballI allI impI)
  show "n \<le> n + 1" by simp
  show "p_thread (appendFrame f st) = p_thread st"
    by (simp add: appendFrame_def)
  show "p_frameById (appendFrame f st) i = p_frameById st i" if "i \<le> n" for i
    using that assms by (simp add: appendFrame_def)
  show "p_frames (appendFrame f st) = p_frames st @ [f]"
    by (simp add: appendFrame_def)
next
  fix g assume "g \<in> set [f]"
  then have g: "g = f" by simp
  show "n < frame_id g" "frame_id g \<le> n + 1"
    "p_frameById (appendFrame f st) (frame_id g) = Some g"
    using assms by (simp_all add: g appendFrame_def)
qed

lemma grows_async: "grows (st, n) (st\<lparr>p_asyncStackTraceId := x\<rparr>, n)"
  by (simp add: grows_def)

lemma grows_fold_runtime:
  "grows (st, n)
     (fold (\<lambda>callFrame (s, n). (appendFrame (runtimeFrame (p_thread s) (n + 1) callFrame) s, n + 1))
        cfs (st, n))"
proof (induction cfs arbitrary: st n)
  case Nil
  show ?case by (simp add: grows_refl)
next
  case (Cons cf cfs)
  have "grows (st, n) (appendFrame (runtimeFrame (p_thread st) (n + 1) cf) st, n + 1)"
    by (rule grows_appendFrame) (simp add: runtimeFrame_def)
  from grows_trans [OF this Cons.IH] show ?case by simp
qed

lemma grows_fold_debugger:
  "grows (st, n)
     (fold (\<lambda>callFrame (s, n). (appendFrame (debuggerFrame thread (n + 1) callFrame) s, n + 1))
        cfs (st, n))"
proof (induction cfs arbitrary: st n)
  case Nil
  show ?case by (simp add: grows_refl)
next
  case (Cons cf cfs)
  have "grows (st, n) (appendFrame (debuggerFrame thread (n + 1) cf) st, n + 1)"
    by (rule grows_appendFrame) (simp add: debuggerFrame_def)
  from grows_trans [OF this Cons.IH] show ?case by simp
qed

lemma grows_appendStackTrace_body: "grows a (appendStackTrace_body d cfs pid a)"
proof -
  define cfs' where "cfs' = (if d = Some ''async function'' \<and> cfs \<noteq> [] then tl cfs else cfs)"
  define b where "b =
            (if cfs' \<noteq> []
             then fold (\<lambda>callFrame (s, n). (appendFrame (runtimeFrame (p_thread s) (n + 1) callFrame) s, n + 1))
                    cfs' (appendFrame (separatorFrame (snd a + 1) d) (fst a), snd a + 1)
             else a)"
  have ab: "grows a b"
  proof (cases "cfs' \<noteq> []")
    case True
    have "grows (fst a, snd a) (appendFrame (separatorFrame (snd a + 1) d) (fst a), snd a + 1)"
      by (rule grows_appendFrame) (simp add: separatorFrame_def)
    from grows_trans [OF this grows_fold_runtime] True show ?thesis
      by (simp add: b_def)
  next
    case False
    then show ?thesis by (simp add: b_def grows_refl)
  qed
  have "grows b (case pid of None \<Rightarrow> b | Some i \<Rightarrow> ((fst b)\<lparr>p_asyncStackTraceId := Some i\<rparr>, snd b))"
    using grows_async [of "fst b" "snd b"] by (cases pid) (simp_all add: grows_refl)
  with ab have "grows a (case pid of None \<Rightarrow> b | Some i \<Rightarrow> ((fst b)\<lparr>p_asyncStackTraceId := Some i\<rparr>, snd b))"
    by (rule grows_trans)
  moreover have "appendStackTrace_body d cfs pid a
      = (case pid of None \<Rightarrow> b | Some i \<Rightarrow> ((fst b)\<lparr>p_asyncStackTraceId := Some i\<rparr>, snd b))"
    by (simp only: appendStackTrace_body_def Let_def b_def cfs'_def)
  ultimately show ?thesis
    by simp
qed

lemma grows_appendStackTrace: "grows a (appendStackTrace t a)"
proof (induction t a rule: appendStackTrace.induct)
  case (1 d cfs p pid a)
  show ?case
  proof (cases p)
    case None
    then show ?thesis by (simp add: grows_appendStackTrace_body)
  next
    case (Some t)
    from grows_trans [OF grows_appendStackTrace_body "1.IH" [OF Some]] Some
    show ?thesis by simp
  qed
qed

lemma grows_fromDebugger:
  "grows (newStackTrace thread, n) (fromDebugger thread frames parent' parentId' n)"
proof -
  define a where "a = fold (\<lambda>callFrame (s, n).
      (appendFrame (debuggerFrame thread (n + 1) callFrame) s, n + 1)) frames (newStackTrace thread, n)"
  have ga: "grows (newStackTrace thread, n) a"
    unfolding a_def by (rule grows_fold_debugger)
  have "grows a (case parentId' of
           Some i \<Rightarrow> ((fst a)\<lparr>p_asyncStackTraceId := Some i\<rparr>, snd a)
         | None \<Rightarrow> (case parent' of Some t \<Rightarrow> appendStackTrace t a | None \<Rightarrow> a))"
    using grows_async [of "fst a" "snd a"] grows_appendStackTrace [of a]
    by (auto simp: grows_refl split: option.splits)
  with ga have "grows (newStackTrace thread, n) (case parentId' of
           Some i \<Rightarrow> ((fst a)\<lparr>p_asyncStackTraceId := Some i\<rparr>, snd a)
         | None \<Rightarrow> (case parent' of Some t \<Rightarrow> appendStackTrace t a | None \<Rightarrow> a))"
    by (rule grows_trans)
  moreover have "fromDebugger thread frames parent' parentId' n = (case parentId' of
           Some i \<Rightarrow> ((fst a)\<lparr>p_asyncStackTraceId := Some i\<rparr>, snd a)
         | None \<Rightarrow> (case parent' of Some t \<Rightarrow> appendStackTrace t a | None \<Rightarrow> a))"
    unfolding fromDebugger_def a_def [symmetric]
    by (cases a) (simp split: option.splits)
  ultimately show ?thesis by simp
qed

text \<open>
  Every frame of a stack trace built by \<open>fromDebugger\<close> is found by \<open>frame\<close> under its id, and
  its id is above the counter that \<open>fromDebugger\<close> started from.
\<close>

lemma fromDebugger_frames_registered:
  assumes "f \<in> set (p_frames (fst (fromDebugger thread frames parent' parentId' n)))"
  shows "frame (fst (fromDebugger thread frames parent' parentId' n)) (frame_id f) = Some f"
    and "n < frame_id f" and "frame_id f \<le> snd (fromDebugger thread frames parent' parentId' n)"
  using grows_fromDebugger [of thread n frames parent' parentId'] assms
  by (auto simp: grows_def newStackTrace_def frame_def)

lemma length_directFrames: "length (directFrames thread n cfs) = length cfs"
  by (induction cfs arbitrary: n) simp_all

lemma nth_directFrames:
  "i < length cfs \<Longrightarrow> directFrames thread n cfs ! i = runtimeFrame thread (n + 1 + int i) (cfs ! i)"
proof (induction cfs arbitrary: n i)
  case Nil
  then show ?case by simp
next
  case (Cons cf cfs)
  show ?case
  proof (cases i)
    case 0
    then show ?thesis by simp
  next
    case (Suc j)
    with Cons.prems have "j < length cfs" by simp
    from Cons.IH [OF this, of "n + 1"] Suc show ?thesis
      by (simp add: add.commute add.left_commute)
  qed
qed

lemma fold_direct_frames:
  "fold (\<lambda>callFrame (s, n). (s\<lparr>p_frames := p_frames s @ [runtimeFrame thread (n + 1) callFrame]\<rparr>, n + 1))
     cfs (st, n)
   = (st\<lparr>p_frames := p_frames st @ directFrames thread n cfs\<rparr>, n + int (length cfs))"
proof (induction cfs arbitrary: st n)
  case Nil
  show ?case by simp
next
  case (Cons cf cfs)
  from Cons.IH [of "st\<lparr>p_frames := p_frames st @ [runtimeFrame thread (n + 1) cf]\<rparr>" "n + 1"]
  show ?case by simp
qed

text \<open>
  No frame that \<open>fromRuntime\<close> builds from the call frames of the stack itself is found by
  \<open>frame\<close>: they are pushed on \<open>_frames\<close> without \<open>_appendFrame\<close>.
\<close>

lemma fromRuntime_direct_frames_unregistered:
  assumes "i < length (callFrames stack)"
  shows "p_frames (fst (fromRuntime thread stack n)) ! i
           = runtimeFrame thread (n + 1 + int i) (callFrames stack ! i)"
    and "frame (fst (fromRuntime thread stack n)) (n + 1 + int i) = None"
proof -
  let ?cfs = "callFrames stack"
  define direct where "direct = directFrames thread n ?cfs"
  define a where "a = ((newStackTrace thread)\<lparr>p_frames := direct\<rparr>, n + int (length ?cfs))"
  define b where "b = (case parentId stack of
           Some i \<Rightarrow> ((fst a)\<lparr>p_asyncStackTraceId := Some i\<rparr>, snd a)
         | None \<Rightarrow> (case parent stack of Some t \<Rightarrow> appendStackTrace t a | None \<Rightarrow> a))"
  have run: "fromRuntime thread stack n = b"
    unfolding fromRuntime_def fold_direct_frames b_def a_def direct_def
    by (simp add: newStackTrace_def split: option.splits)
  have "grows a b"
    unfolding b_def
    using grows_async [of "fst a" "snd a"] grows_appendStackTrace [of a]
    by (auto simp: grows_refl split: option.splits)
  then obtain new where same: "\<forall>i \<le> snd a. p_frameById (fst b) i = p_frameById (fst a) i"
    and frames: "p_frames (fst b) = p_frames (fst a) @ new"
    unfolding grows_def by blast
  have len: "length direct = length ?cfs"
    by (simp add: direct_def length_directFrames)
  from assms have "direct ! i = runtimeFrame thread (n + 1 + int i) (?cfs ! i)"
    by (simp add: direct_def nth_directFrames)
  with frames assms len show "p_frames (fst (fromRuntime thread stack n)) ! i
           = runtimeFrame thread (n + 1 + int i) (?cfs ! i)"
    by (simp add: run a_def nth_append)
  from assms have "n + 1 + int i \<le> snd a"
    by (simp add: a_def)
  with same have "p_frameById (fst b) (n + 1 + int i) = None"
    by (simp add: a_def newStackTrace_def)
  then show "frame (fst (fromRuntime thread stack n)) (n + 1 + int i) = None"
    by (simp add: run frame_def)
qed

text \<open>
  Claim C8 fails on \<open>fromRuntime\<close>. With the counter at \<open>0\<close>, a stack of one call frame and no
  parent gives a stack trace whose only frame has id \<open>1\<close>, and \<open>frame(1)\<close> is \<open>undefined\<close>.
  The same call frame through \<open>fromDebugger\<close> is found under its id.
\<close>

theorem fromRuntime_frame_not_reachable:
  "map frame_id (p_frames (fst (fromRuntime exampleThread
       (RuntimeStackTrace None [exampleCallFrame] None None) 0))) = [1]
   \<and> frame (fst (fromRuntime exampleThread
       (RuntimeStackTrace None [exampleCallFrame] None None) 0)) 1 = None
   \<and> map frame_id (p_frames (fst (fromDebugger exampleThread
       [\<lparr>dbg_functionName = ''main'', dbg_callFrameId = ''0'', dbg_scopeChain = []\<rparr>] None None 0))) = [1]
   \<and> map_option frame_name (frame (fst (fromDebugger exampleThread
       [\<lparr>dbg_functionName = ''main'', dbg_callFrameId = ''0'', dbg_scopeChain = []\<rparr>] None None 0)) 1)
     = Some ''main''"
  by code_simp

section \<open>Properties of breakpoints.ts\<close>

lemma sameBreakpoints_refl: "sameBreakpoints m m"
  by (simp add: sameBreakpoints_def)

lemma sameBreakpoints_trans:
  "sameBreakpoints m1 m2 \<Longrightarrow> sameBreakpoints m2 m3 \<Longrightarrow> sameBreakpoints m1 m3"
  by (simp add: sameBreakpoints_def)

lemma sameBreakpoints_addSetter: "sameBreakpoints m (addSetter r command m)"
  by (simp add: sameBreakpoints_def addSetter_def updateBreakpoint_def)

lemma sameBreakpoints_eqs:
  assumes "sameBreakpoints m m1"
  shows "siblingLocations env (m_store m1 r) script = siblingLocations env (m_store m r) script"
    and "breakpointsOfSource m1 source = breakpointsOfSource m source"
    and "alreadySet (m_store m1 r) script = alreadySet (m_store m r) script"
    and "setCommand (m_store m1 r) script = setCommand (m_store m r) script"
    and "m_thread m1 = m_thread m"
proof -
  from assms have b: "b_source (m_store m1 r) = b_source (m_store m r)"
    "b_lineColumn (m_store m1 r) = b_lineColumn (m_store m r)"
    "b_condition (m_store m1 r) = b_condition (m_store m r)"
    "b_setUrlLocations (m_store m1 r) = b_setUrlLocations (m_store m r)"
    by (simp_all add: sameBreakpoints_def)
  show "siblingLocations env (m_store m1 r) script = siblingLocations env (m_store m r) script"
    by (simp only: siblingLocations_def b)
  from assms have "m_byPath m1 = m_byPath m" "m_byRef m1 = m_byRef m"
    by (simp_all add: sameBreakpoints_def)
  then show "breakpointsOfSource m1 source = breakpointsOfSource m source"
    by (simp only: breakpointsOfSource_def)
  show "alreadySet (m_store m1 r) script = alreadySet (m_store m r) script"
    by (rule ext) (simp only: alreadySet_def b)
  show "setCommand (m_store m1 r) script = setCommand (m_store m r) script"
    by (rule ext) (simp only: setCommand_def b)
  from assms show "m_thread m1 = m_thread m"
    by (simp add: sameBreakpoints_def)
qed

lemma expected_eqs:
  assumes "sameBreakpoints m m1"
  shows "expectedKind thread (m_store m1 r) script = expectedKind thread (m_store m r) script"
    and "expectedCommands thread (m_store m1 r) script = expectedCommands thread (m_store m r) script"
proof -
  note e = sameBreakpoints_eqs(3,4) [OF assms, of r script]
  show "expectedKind thread (m_store m1 r) script = expectedKind thread (m_store m r) script"
    by (rule ext) (simp only: expectedKind_def e)
  show "expectedCommands thread (m_store m1 r) script = expectedCommands thread (m_store m r) script"
    by (rule ext) (simp only: expectedCommands_def e)
qed

text \<open>One call of \<open>_setByScriptId\<close>.\<close>

lemma setByScriptId_result:
  "kind (fst (setByScriptId thread r script l m)) = expectedKind thread (m_store m r) script l"
  "sameBreakpoints m (snd (setByScriptId thread r script l m))"
  "m_cdp (snd (setByScriptId thread r script l m))
     = m_cdp m @ expectedCommands thread (m_store m r) script [l]"
proof -
  show "kind (fst (setByScriptId thread r script l m)) = expectedKind thread (m_store m r) script l"
    by (simp add: setByScriptId_def kind_def expectedKind_def alreadySet_def)
  show "sameBreakpoints m (snd (setByScriptId thread r script l m))"
    unfolding setByScriptId_def
    by (simp add: sameBreakpoints_refl sameBreakpoints_addSetter del: split_paired_All)
  show "m_cdp (snd (setByScriptId thread r script l m))
     = m_cdp m @ expectedCommands thread (m_store m r) script [l]"
    by (simp add: setByScriptId_def alreadySet_def expectedCommands_def setCommand_def addSetter_def)
qed

lemma expectedCommands_Cons:
  "expectedCommands thread b script (l # ls)
     = expectedCommands thread b script [l] @ expectedCommands thread b script ls"
  by (simp add: expectedCommands_def)

lemma expectedCommands_append:
  "expectedCommands thread b script (ks @ ls)
     = expectedCommands thread b script ks @ expectedCommands thread b script ls"
  by (simp add: expectedCommands_def)

text \<open>The loop over the locations.\<close>

lemma setAllByScriptId_result:
  "map kind (fst (setAllByScriptId thread r (\<lambda>l. (script, l)) ls m))
     = map (expectedKind thread (m_store m r) script) ls
   \<and> sameBreakpoints m (snd (setAllByScriptId thread r (\<lambda>l. (script, l)) ls m))
   \<and> m_cdp (snd (setAllByScriptId thread r (\<lambda>l. (script, l)) ls m))
       = m_cdp m @ expectedCommands thread (m_store m r) script ls"
proof (induction ls arbitrary: m)
  case Nil
  show ?case by (simp add: sameBreakpoints_refl expectedCommands_def)
next
  case (Cons l ls)
  define outcome where "outcome = fst (setByScriptId thread r script l m)"
  define m1 where "m1 = snd (setByScriptId thread r script l m)"
  have one: "setByScriptId thread r script l m = (outcome, m1)"
    by (simp add: outcome_def m1_def)
  note first = setByScriptId_result [where thread = thread and r = r and script = script and l = l and m = m,
      folded outcome_def m1_def]
  note e = expected_eqs [OF first(2), where thread = thread and r = r and script = script]
  from Cons.IH [of m1]
  have ih: "map kind (fst (setAllByScriptId thread r (\<lambda>l. (script, l)) ls m1))
              = map (expectedKind thread (m_store m r) script) ls"
    "sameBreakpoints m1 (snd (setAllByScriptId thread r (\<lambda>l. (script, l)) ls m1))"
    "m_cdp (snd (setAllByScriptId thread r (\<lambda>l. (script, l)) ls m1))
       = m_cdp m1 @ expectedCommands thread (m_store m r) script ls"
    by (simp_all only: e)
  have unfold: "setAllByScriptId thread r (\<lambda>l. (script, l)) (l # ls) m
     = (outcome # fst (setAllByScriptId thread r (\<lambda>l. (script, l)) ls m1),
        snd (setAllByScriptId thread r (\<lambda>l. (script, l)) ls m1))"
    by (simp add: one case_prod_unfold Let_def)
  show ?case
    unfolding unfold fst_conv snd_conv
    using first ih sameBreakpoints_trans [OF first(2) ih(2)]
    by (simp add: expectedCommands_Cons [where l = l and ls = ls])
qed

text \<open>One call of \<open>updateForSourceMap\<close>.\<close>

lemma updateForSourceMap_result:
  "fst (fst (updateForSourceMap env thread r script m)) = siblingLocations env (m_store m r) script"
  "map kind (snd (fst (updateForSourceMap env thread r script m)))
     = map (expectedKind thread (m_store m r) script) (siblingLocations env (m_store m r) script)"
  "sameBreakpoints m (snd (updateForSourceMap env thread r script m))"
  "m_cdp (snd (updateForSourceMap env thread r script m))
     = m_cdp m @ expectedCommands thread (m_store m r) script (siblingLocations env (m_store m r) script)"
proof -
  define ls where "ls = siblingLocations env (m_store m r) script"
  have eq: "updateForSourceMap env thread r script m
      = ((ls, fst (setAllByScriptId thread r (\<lambda>l. (script, l)) ls m)),
         snd (setAllByScriptId thread r (\<lambda>l. (script, l)) ls m))"
    by (simp add: updateForSourceMap_def siblingLocations_def ls_def Let_def case_prod_unfold
        split: option.splits)
  note all = setAllByScriptId_result [where thread = thread and r = r and script = script and ls = ls and m = m]
  show "fst (fst (updateForSourceMap env thread r script m)) = siblingLocations env (m_store m r) script"
    unfolding eq ls_def by simp
  show "map kind (snd (fst (updateForSourceMap env thread r script m)))
     = map (expectedKind thread (m_store m r) script) (siblingLocations env (m_store m r) script)"
    unfolding eq snd_conv fst_conv using all unfolding ls_def by blast
  show "sameBreakpoints m (snd (updateForSourceMap env thread r script m))"
    unfolding eq snd_conv using all by blast
  show "m_cdp (snd (updateForSourceMap env thread r script m))
     = m_cdp m @ expectedCommands thread (m_store m r) script (siblingLocations env (m_store m r) script)"
    unfolding eq snd_conv using all unfolding ls_def by blast
qed

lemma expected_same:
  assumes "sameBreakpoints m m1"
  shows "expectedPromise env (m_thread m1) (m_store m1 r) script = expectedPromise env (m_thread m) (m_store m r) script"
    and "expectedSent env (m_thread m1) (m_store m1 r) script = expectedSent env (m_thread m) (m_store m r) script"
    and "breakpointsOfSource m1 source = breakpointsOfSource m source"
proof -
  note e = sameBreakpoints_eqs(1,5) [OF assms] expected_eqs [OF assms]
  show "expectedPromise env (m_thread m1) (m_store m1 r) script = expectedPromise env (m_thread m) (m_store m r) script"
    by (simp only: expectedPromise_def e)
  show "expectedSent env (m_thread m1) (m_store m1 r) script = expectedSent env (m_thread m) (m_store m r) script"
    by (simp only: expectedSent_def e)
  show "breakpointsOfSource m1 source = breakpointsOfSource m source"
    by (rule sameBreakpoints_eqs(2) [OF assms])
qed

lemma updateForSourceMap_expected:
  "kinds (fst (updateForSourceMap env (m_thread m) r script m)) = expectedPromise env (m_thread m) (m_store m r) script"
  "m_cdp (snd (updateForSourceMap env (m_thread m) r script m))
     = m_cdp m @ expectedSent env (m_thread m) (m_store m r) script"
  by (simp_all only: kinds_def expectedPromise_def expectedSent_def updateForSourceMap_result)

text \<open>The inner loop of the handler over the breakpoints of one source.\<close>

lemma handler_inner:
  "map kinds (fst (fold (\<lambda>r (todo', m2).
            let (promise, m3) = updateForSourceMap env (m_thread m2) r script m2
            in (todo' @ [promise], m3)) rs (todo, m)))
     = map kinds todo @ map (\<lambda>r. expectedPromise env (m_thread m) (m_store m r) script) rs
   \<and> sameBreakpoints m (snd (fold (\<lambda>r (todo', m2).
            let (promise, m3) = updateForSourceMap env (m_thread m2) r script m2
            in (todo' @ [promise], m3)) rs (todo, m)))
   \<and> m_cdp (snd (fold (\<lambda>r (todo', m2).
            let (promise, m3) = updateForSourceMap env (m_thread m2) r script m2
            in (todo' @ [promise], m3)) rs (todo, m)))
       = m_cdp m @ concat (map (\<lambda>r. expectedSent env (m_thread m) (m_store m r) script) rs)"
proof (induction rs arbitrary: todo m)
  case Nil
  show ?case by (simp add: sameBreakpoints_refl)
next
  case (Cons r rs)
  let ?step = "\<lambda>r (todo', m2).
            let (promise, m3) = updateForSourceMap env (m_thread m2) r script m2
            in (todo' @ [promise], m3)"
  define promise where "promise = fst (updateForSourceMap env (m_thread m) r script m)"
  define m1 where "m1 = snd (updateForSourceMap env (m_thread m) r script m)"
  have same: "sameBreakpoints m m1"
    unfolding m1_def by (rule updateForSourceMap_result)
  note first = updateForSourceMap_expected [where env = env and m = m and r = r and script = script,
      folded promise_def m1_def]
  have step: "fold ?step (r # rs) (todo, m) = fold ?step rs (todo @ [promise], m1)"
    by (simp add: promise_def m1_def case_prod_unfold Let_def)
  note e = expected_same(1,2) [OF same]
  from Cons.IH [of "todo @ [promise]" m1]
  have ih: "map kinds (fst (fold ?step rs (todo @ [promise], m1)))
     = map kinds (todo @ [promise]) @ map (\<lambda>r. expectedPromise env (m_thread m) (m_store m r) script) rs"
    "sameBreakpoints m1 (snd (fold ?step rs (todo @ [promise], m1)))"
    "m_cdp (snd (fold ?step rs (todo @ [promise], m1)))
       = m_cdp m1 @ concat (map (\<lambda>r. expectedSent env (m_thread m) (m_store m r) script) rs)"
    by (simp_all only: e)
  show ?case
    unfolding step
    using ih first sameBreakpoints_trans [OF same ih(2)] by simp
qed

lemma handler_outer:
  "map kinds (fst (fold (\<lambda>source (todo, m1).
                fold (\<lambda>r (todo', m2).
                        let (promise, m3) = updateForSourceMap env (m_thread m2) r script m2
                        in (todo' @ [promise], m3))
                  (breakpointsOfSource m1 source) (todo, m1))
          srcs (todo, m)))
     = map kinds todo
       @ concat (map (\<lambda>source. map (\<lambda>r. expectedPromise env (m_thread m) (m_store m r) script)
                                   (breakpointsOfSource m source)) srcs)
   \<and> sameBreakpoints m (snd (fold (\<lambda>source (todo, m1).
                fold (\<lambda>r (todo', m2).
                        let (promise, m3) = updateForSourceMap env (m_thread m2) r script m2
                        in (todo' @ [promise], m3))
                  (breakpointsOfSource m1 source) (todo, m1))
          srcs (todo, m)))
   \<and> m_cdp (snd (fold (\<lambda>source (todo, m1).
                fold (\<lambda>r (todo', m2).
                        let (promise, m3) = updateForSourceMap env (m_thread m2) r script m2
                        in (todo' @ [promise], m3))
                  (breakpointsOfSource m1 source) (todo, m1))
          srcs (todo, m)))
       = m_cdp m
         @ concat (map (\<lambda>source. concat (map (\<lambda>r. expectedSent env (m_thread m) (m_store m r) script)
                                           (breakpointsOfSource m source))) srcs)"
proof (induction srcs arbitrary: todo m)
  case Nil
  show ?case by (simp add: sameBreakpoints_refl)
next
  case (Cons source srcs)
  let ?inner = "\<lambda>r (todo', m2).
                        let (promise, m3) = updateForSourceMap env (m_thread m2) r script m2
                        in (todo' @ [promise], m3)"
  let ?outer = "\<lambda>source (todo, m1). fold ?inner (breakpointsOfSource m1 source) (todo, m1)"
  define todo1 where "todo1 = fst (fold ?inner (breakpointsOfSource m source) (todo, m))"
  define m1 where "m1 = snd (fold ?inner (breakpointsOfSource m source) (todo, m))"
  note inner = handler_inner [where env = env and script = script and rs = "breakpointsOfSource m source"
      and todo = todo and m = m, folded todo1_def m1_def]
  from inner have same: "sameBreakpoints m m1" by blast
  have step: "fold ?outer (source # srcs) (todo, m) = fold ?outer srcs (todo1, m1)"
    by (simp add: todo1_def m1_def)
  note e = expected_same [OF same]
  from Cons.IH [of todo1 m1]
  have ih: "map kinds (fst (fold ?outer srcs (todo1, m1)))
     = map kinds todo1
       @ concat (map (\<lambda>source. map (\<lambda>r. expectedPromise env (m_thread m) (m_store m r) script)
                                   (breakpointsOfSource m source)) srcs)"
    "sameBreakpoints m1 (snd (fold ?outer srcs (todo1, m1)))"
    "m_cdp (snd (fold ?outer srcs (todo1, m1)))
       = m_cdp m1
         @ concat (map (\<lambda>source. concat (map (\<lambda>r. expectedSent env (m_thread m) (m_store m r) script)
                                           (breakpointsOfSource m source))) srcs)"
    by (simp_all only: e)
  show ?case
    unfolding step
    using ih inner sameBreakpoints_trans [OF same ih(2)] by simp
qed

text \<open>The handler up to its \<open>await\<close>.\<close>

lemma handlerStart_result:
  "map kinds (fst (handlerStart env script srcs m))
     = concat (map (\<lambda>source. map (\<lambda>r. expectedPromise env (m_thread m) (m_store m r) script)
                                 (breakpointsOfSource m source)) srcs)"
  "sameBreakpoints m (snd (handlerStart env script srcs m))"
  "m_cdp (snd (handlerStart env script srcs m))
     = m_cdp m
       @ concat (map (\<lambda>source. concat (map (\<lambda>r. expectedSent env (m_thread m) (m_store m r) script)
                                         (breakpointsOfSource m source))) srcs)"
  using handler_outer [where env = env and script = script and srcs = srcs and todo = "[]" and m = m]
  unfolding handlerStart_def by simp_all

lemma isAwaits_kind: "isAwaits (kind outcome) = isAwaits outcome"
  by (cases outcome) (simp_all add: isAwaits_def kind_def)

lemma reSet_zip_kind:
  "map fst (filter (\<lambda>(l, outcome). isAwaits outcome) (zip ls (map kind os)))
     = map fst (filter (\<lambda>(l, outcome). isAwaits outcome) (zip ls os))"
proof (induction ls arbitrary: os)
  case Nil
  show ?case by simp
next
  case (Cons l ls)
  show ?case
    by (cases os) (simp_all add: Cons.IH isAwaits_kind)
qed

lemma reSetOne_kinds: "reSetOne (kinds promise) = reSetOne promise"
  by (simp add: reSetOne_def kinds_def reSet_zip_kind)

lemma reSetLocations_kinds: "reSetLocations todo = concat (map reSetOne (map kinds todo))"
proof -
  have "reSetLocations todo = concat (map reSetOne todo)"
    by (simp add: reSetLocations_def reSetOne_def [abs_def] case_prod_unfold)
  also have "\<dots> = concat (map reSetOne (map kinds todo))"
    by (simp add: reSetOne_kinds comp_def)
  finally show ?thesis .
qed

lemma reSet_zip_expected:
  "map fst (filter (\<lambda>(l, outcome). isAwaits outcome) (zip ls (map (expectedKind thread b script) ls)))
     = (if thread then filter (\<lambda>l. \<not> alreadySet b script l) ls else [])"
proof (cases thread)
  case True
  then show ?thesis
    by (induction ls) (simp_all add: expectedKind_def isAwaits_def)
next
  case False
  then show ?thesis
    by (induction ls) (simp_all add: expectedKind_def isAwaits_def)
qed

lemma reSetOne_expected:
  "reSetOne (expectedPromise env (m_thread m) (m_store m r) script)
     = (if m_thread m then notYetSet env m script r else [])"
  by (simp only: reSetOne_def expectedPromise_def fst_conv snd_conv reSet_zip_expected notYetSet_def)

lemma expectedSent_notYetSet:
  "expectedSent env (m_thread m) (m_store m r) script
     = (if m_thread m then map (setCommand (m_store m r) script) (notYetSet env m script r) else [])"
  by (simp only: expectedSent_def expectedCommands_def notYetSet_def)

lemma map_fst_kinds: "map fst (map kinds todo) = map fst todo"
  by (simp add: kinds_def comp_def)

lemma outcomes_kinds: "concat (map snd (map kinds todo)) = map kind (concat (map snd todo))"
  by (simp add: kinds_def comp_def map_concat)

lemma thrown_Some:
  assumes "thrown outcomes = Some e"
  shows "Throws e \<in> set outcomes"
proof -
  from assms obtain outcome where
    f: "List.find (\<lambda>outcome. case outcome of Throws e \<Rightarrow> True | _ \<Rightarrow> False) outcomes = Some outcome"
    by (auto simp: thrown_def split: option.splits)
  with assms have "outcome = Throws e"
    by (cases outcome) (simp_all add: thrown_def)
  moreover from f have "outcome \<in> set outcomes"
    by (auto simp: find_Some_iff)
  ultimately show ?thesis by simp
qed

text \<open>The kinds of all promises of a call of the handler.\<close>

lemma handler_kinds:
  assumes "outcome \<in> set (concat (map snd (fst (handlerStart env script srcs m))))"
  shows "\<exists>b l. kind outcome = expectedKind (m_thread m) b script l"
proof -
  from assms have "kind outcome \<in> set (concat (map snd (map kinds (fst (handlerStart env script srcs m)))))"
    unfolding outcomes_kinds by simp
  then show ?thesis
    unfolding handlerStart_result(1) by (auto simp: expectedPromise_def)
qed

lemma handler_throws:
  assumes "thrown (concat (map snd (fst (handlerStart env script srcs m)))) = Some e"
  shows "e = TypeError \<and> \<not> m_thread m"
proof -
  from handler_kinds [OF thrown_Some [OF assms]]
  obtain b l where "kind (Throws e) = expectedKind (m_thread m) b script l"
    by blast
  then show ?thesis
    by (simp add: kind_def expectedKind_def split: if_splits)
qed

lemma handler_awaits:
  assumes "\<not> list_all (settled answered) (concat (map snd (fst (handlerStart env script srcs m))))"
  shows "m_thread m"
proof -
  from assms obtain outcome where
    o: "outcome \<in> set (concat (map snd (fst (handlerStart env script srcs m))))"
    and u: "\<not> settled answered outcome"
    unfolding list_all_iff by blast
  from u obtain n where "outcome = Awaits n"
    by (cases outcome) (simp_all add: settled_def)
  with handler_kinds [OF o] obtain b l where "Awaits 0 = expectedKind (m_thread m) b script l"
    by (auto simp: kind_def)
  then show ?thesis
    by (simp add: expectedKind_def split: if_splits)
qed

lemma handler_locations:
  "map fst (fst (handlerStart env script srcs m))
     = concat (map (\<lambda>source. map (\<lambda>r. siblingLocations env (m_store m r) script)
                                 (breakpointsOfSource m source)) srcs)"
proof -
  have "map fst (fst (handlerStart env script srcs m))
      = map fst (map kinds (fst (handlerStart env script srcs m)))"
    by (simp only: map_fst_kinds)
  also have "\<dots> = concat (map (\<lambda>source. map (\<lambda>r. siblingLocations env (m_store m r) script)
                                 (breakpointsOfSource m source)) srcs)"
    unfolding handlerStart_result(1) by (simp add: map_concat comp_def expectedPromise_def)
  finally show ?thesis .
qed

lemma concat_concat_map:
  "concat (concat (map (\<lambda>x. map f (g x)) xs)) = concat (map (\<lambda>x. concat (map f (g x))) xs)"
  by (induction xs) simp_all

lemma handler_reSet:
  "reSetLocations (fst (handlerStart env script srcs m))
     = (if m_thread m
        then concat (map (\<lambda>source. concat (map (notYetSet env m script) (breakpointsOfSource m source))) srcs)
        else [])"
proof -
  have "reSetLocations (fst (handlerStart env script srcs m))
      = concat (map (\<lambda>source. concat (map (\<lambda>r. if m_thread m then notYetSet env m script r else [])
                                          (breakpointsOfSource m source))) srcs)"
    unfolding reSetLocations_kinds handlerStart_result(1)
    by (simp add: map_concat comp_def reSetOne_expected concat_concat_map)
  then show ?thesis
    by (cases "m_thread m") simp_all
qed

lemma handler_commands:
  "m_cdp (snd (handlerStart env script srcs m))
     = m_cdp m
       @ (if m_thread m
          then concat (map (\<lambda>source. concat (map (\<lambda>r. map (setCommand (m_store m r) script)
                                                          (notYetSet env m script r))
                                              (breakpointsOfSource m source))) srcs)
          else [])"
  unfolding handlerStart_result(3) expectedSent_notYetSet
  by (cases "m_thread m") simp_all

text \<open>
  Claim C4, as the code has it. A call of the handler returns \<open>remainPaused = true\<close> if and only
  if one of the locations that \<open>updateForSourceMap\<close> returns for a breakpoint of the script's
  authored sources (listed under the path or the reference of one of them) has
  \<open>lineNumber \<le> 1\<close> and \<open>columnNumber \<le> 1\<close>. These are the locations asked for, not the ones the
  runtime resolves, and they count whether or not the breakpoint is set there: with a thread
  a \<open>setBreakpoint\<close> command is sent for each of them that was not set by url before, and for
  no other. The handler is rejected only when there is no thread, and it waits only for
  setters of its own commands.
\<close>

theorem handler_remainPaused:
  "(case handlerSettle answered (fst (handlerStart env script srcs m)) of
      HandlerReturned flag \<Rightarrow>
        flag \<longleftrightarrow>
          (\<exists>source \<in> set srcs. \<exists>r \<in> set (breakpointsOfSource m source).
             \<exists>l \<in> set (siblingLocations env (m_store m r) script).
               lc_lineNumber l \<le> 1 \<and> lc_columnNumber l \<le> 1)
    | HandlerRejected e \<Rightarrow> e = TypeError \<and> \<not> m_thread m
    | HandlerAwaits \<Rightarrow>
        m_thread m
        \<and> \<not> list_all (settled answered) (concat (map snd (fst (handlerStart env script srcs m)))))
   \<and> reSetLocations (fst (handlerStart env script srcs m))
       = (if m_thread m
          then concat (map (\<lambda>source. concat (map (notYetSet env m script) (breakpointsOfSource m source))) srcs)
          else [])
   \<and> m_cdp (snd (handlerStart env script srcs m))
       = m_cdp m
         @ (if m_thread m
            then concat (map (\<lambda>source. concat (map (\<lambda>r. map (setCommand (m_store m r) script)
                                                            (notYetSet env m script r))
                                                (breakpointsOfSource m source))) srcs)
            else [])"
proof -
  let ?todo = "fst (handlerStart env script srcs m)"
  let ?outcomes = "concat (map snd ?todo)"
  have first: "case handlerSettle answered ?todo of
      HandlerReturned flag \<Rightarrow>
        flag \<longleftrightarrow>
          (\<exists>source \<in> set srcs. \<exists>r \<in> set (breakpointsOfSource m source).
             \<exists>l \<in> set (siblingLocations env (m_store m r) script).
               lc_lineNumber l \<le> 1 \<and> lc_columnNumber l \<le> 1)
    | HandlerRejected e \<Rightarrow> e = TypeError \<and> \<not> m_thread m
    | HandlerAwaits \<Rightarrow> m_thread m \<and> \<not> list_all (settled answered) ?outcomes"
  proof (cases "thrown ?outcomes")
    case (Some e)
    with handler_throws [OF Some] show ?thesis
      by (simp add: handlerSettle_def)
  next
    case None
    show ?thesis
    proof (cases "list_all (settled answered) ?outcomes")
      case False
      with None handler_awaits [OF False] show ?thesis
        by (simp add: handlerSettle_def)
    next
      case True
      have "list_ex (list_ex (\<lambda>l. lc_columnNumber l \<le> 1 \<and> lc_lineNumber l \<le> 1)) (map fst ?todo)
          \<longleftrightarrow> (\<exists>source \<in> set srcs. \<exists>r \<in> set (breakpointsOfSource m source).
             \<exists>l \<in> set (siblingLocations env (m_store m r) script).
               lc_lineNumber l \<le> 1 \<and> lc_columnNumber l \<le> 1)"
        unfolding handler_locations by (auto simp: list_ex_iff)
      with None True show ?thesis
        by (simp add: handlerSettle_def)
    qed
  qed
  from first handler_reSet [of env script srcs m] handler_commands [of env script srcs m]
  show ?thesis by blast
qed

lemma dom_fold_delete:
  "dom (fold (\<lambda>i index. index(i := None)) ids index) = dom index - set ids"
  by (induction ids arbitrary: index) auto

lemma removeIds_clears:
  assumes "m_thread m"
  shows "b_resolvedBreakpoints (m_store (snd (removeIds r m)) r) = []"
    and "\<forall>cdpId \<in> set (b_resolvedBreakpoints (m_store m r)). m_resolvedBreakpoints (snd (removeIds r m)) cdpId = None"
    and "m_cdp (snd (removeIds r m)) = m_cdp m @ map RemoveBreakpoint (b_resolvedBreakpoints (m_store m r))"
    and "fst (removeIds r m)
           = AwaitRemovals [length (m_cdp m) ..< length (m_cdp m) + length (b_resolvedBreakpoints (m_store m r))]"
proof -
  have gone: "fold (\<lambda>i index. index(i := None)) ids index cdpId = None" if "cdpId \<in> set ids"
    for ids :: "BreakpointId list" and index :: "BreakpointId \<rightharpoonup> ref" and cdpId
    using that dom_fold_delete [of ids index] by blast
  show "b_resolvedBreakpoints (m_store (snd (removeIds r m)) r) = []"
    using assms by (simp add: removeIds_def Let_def updateBreakpoint_def)
  show "\<forall>cdpId \<in> set (b_resolvedBreakpoints (m_store m r)). m_resolvedBreakpoints (snd (removeIds r m)) cdpId = None"
    using assms gone by (simp add: removeIds_def Let_def updateBreakpoint_def)
  show "m_cdp (snd (removeIds r m)) = m_cdp m @ map RemoveBreakpoint (b_resolvedBreakpoints (m_store m r))"
    using assms by (simp add: removeIds_def Let_def updateBreakpoint_def)
  show "fst (removeIds r m)
           = AwaitRemovals [length (m_cdp m) ..< length (m_cdp m) + length (b_resolvedBreakpoints (m_store m r))]"
    using assms by (simp add: removeIds_def Let_def)
qed

text \<open>
  Claim C4 as the specification words it fails. The breakpoint of \<open>/web/a.ts\<close> on line 1 was set
  by url, and a script arrives that is run from the url of that file. Its location in the
  script is line 1, column 1, so the handler returns \<open>remainPaused = true\<close>; but
  \<open>_setByScriptId\<close> finds the url and position already set and returns at once: no breakpoint is
  set again at any location, and no command is sent.
\<close>

theorem handler_nothing_reset_counterexample:
  "handlerSettle [] (fst (handlerStart exampleEnv exampleServed [exampleAuthored] exampleManager))
     = HandlerReturned True
   \<and> reSetLocations (fst (handlerStart exampleEnv exampleServed [exampleAuthored] exampleManager)) = []
   \<and> m_cdp (snd (handlerStart exampleEnv exampleServed [exampleAuthored] exampleManager))
       = m_cdp exampleManager
   \<and> m_thread exampleManager"
  by code_simp

theorem handler_remainPaused_witness:
  "handlerSettle [1] (fst (handlerStart exampleEnv exampleScript [exampleAuthored] exampleManager))
     = HandlerReturned True
   \<and> handlerSettle [] (fst (handlerStart exampleEnv exampleScript [exampleAuthored] exampleManager))
     = HandlerAwaits
   \<and> breakpointsOfSource exampleManager exampleAuthored = [0]
   \<and> map (\<lambda>l. (lc_lineNumber l, lc_columnNumber l))
         (siblingLocations exampleEnv (m_store exampleManager 0) exampleScript) = [(1, 1)]
   \<and> map (\<lambda>l. (lc_lineNumber l, lc_columnNumber l))
         (reSetLocations (fst (handlerStart exampleEnv exampleScript [exampleAuthored] exampleManager))) = [(1, 1)]
   \<and> m_cdp (snd (handlerStart exampleEnv exampleScript [exampleAuthored] exampleManager))
       = m_cdp exampleManager @ [SetBreakpoint ''7'' \<lparr>lc_lineNumber = 1, lc_columnNumber = 1\<rparr> None]"
proof -
  let ?todo = "fst (handlerStart exampleEnv exampleScript [exampleAuthored] exampleManager)"
  have refs: "breakpointsOfSource exampleManager exampleAuthored = [0]"
    by code_simp
  have locations: "map (\<lambda>l. (lc_lineNumber l, lc_columnNumber l))
         (siblingLocations exampleEnv (m_store exampleManager 0) exampleScript) = [(1, 1)]"
    by code_simp
  have fresh: "notYetSet exampleEnv exampleManager exampleScript 0
      = siblingLocations exampleEnv (m_store exampleManager 0) exampleScript"
    by code_simp
  have thread: "m_thread exampleManager"
    by code_simp
  have command: "map (setCommand (m_store exampleManager 0) exampleScript)
                   (siblingLocations exampleEnv (m_store exampleManager 0) exampleScript)
      = [SetBreakpoint ''7'' \<lparr>lc_lineNumber = 1, lc_columnNumber = 1\<rparr> None]"
    by code_simp
  have answered: "handlerSettle [1] ?todo \<noteq> HandlerAwaits" "handlerSettle [1] ?todo \<noteq> HandlerRejected TypeError"
    by code_simp+
  have waiting: "handlerSettle [] ?todo = HandlerAwaits"
    by code_simp
  from locations obtain l where l: "siblingLocations exampleEnv (m_store exampleManager 0) exampleScript = [l]"
    "lc_lineNumber l = 1" "lc_columnNumber l = 1"
    by auto
  note claim = handler_remainPaused [where answered = "[1]" and env = exampleEnv and script = exampleScript
      and srcs = "[exampleAuthored]" and m = exampleManager]
  from claim answered have returned: "handlerSettle [1] ?todo = HandlerReturned True"
    by (cases "handlerSettle [1] ?todo") (simp_all add: refs l)
  from claim have "reSetLocations ?todo = [l]"
    by (simp add: thread refs fresh l)
  then have reset: "map (\<lambda>l. (lc_lineNumber l, lc_columnNumber l)) (reSetLocations ?todo) = [(1, 1)]"
    by (simp add: l)
  from claim have sent: "m_cdp (snd (handlerStart exampleEnv exampleScript [exampleAuthored] exampleManager))
       = m_cdp exampleManager @ [SetBreakpoint ''7'' \<lparr>lc_lineNumber = 1, lc_columnNumber = 1\<rparr> None]"
    using command by (simp add: thread refs fresh)
  from returned waiting refs locations reset sent show ?thesis
    by blast
qed

text \<open>When no other call overlaps, the clearing call leaves no id behind.\<close>

lemma setBreakpoints_empty_alone:
  "(case run exampleEnv clearingAlone emptyWorld of
      None \<Rightarrow> False
    | Some w \<Rightarrow>
        call_previous (w_calls w ! 1) = Some [0]
        \<and> call_phase (w_calls w ! 1) = Returned []
        \<and> b_resolvedBreakpoints (m_store (w_manager w) 0) = []
        \<and> m_resolvedBreakpoints (w_manager w) ''id0'' = None
        \<and> m_cdp (w_manager w)
            = [SetBreakpointByUrl ''file:///web/a.ts'' \<lparr>lc_lineNumber = 1, lc_columnNumber = 1\<rparr> None,
               RemoveBreakpoint ''id0''])"
  by code_simp

text \<open>
  Claim C1 on the code. \<open>remove()\<close> awaits the setters that the breakpoint has when it is
  called, and nothing keeps a new setter from running: \<open>_disposables\<close> stays empty. In the run
  \<open>overlappingCalls\<close> call 2 is \<open>setBreakpoints\<close> for \<open>/web/a.ts\<close> with an empty list; breakpoint 1
  was in that source before. While the call waits for the setter of the source map handler,
  call 1 goes on and sets breakpoint 1 by url. When call 2 returns, breakpoint 1 has the id
  \<open>id2\<close> of the runtime, the manager's index has it, and \<open>removeBreakpoint\<close> was never sent for
  it. The id \<open>id1\<close> that arrived for the awaited setter was removed.
\<close>

theorem setBreakpoints_empty_leaves_id:
  "(case run exampleEnv overlappingCalls emptyWorld of
      None \<Rightarrow> False
    | Some w \<Rightarrow>
        params_breakpoints (call_params (w_calls w ! 2)) = Some []
        \<and> call_previous (w_calls w ! 2) = Some [1]
        \<and> call_phase (w_calls w ! 2) = Returned []
        \<and> m_byPath (w_manager w) ''/web/a.ts'' = Some []
        \<and> b_resolvedBreakpoints (m_store (w_manager w) 1) = [''id2'']
        \<and> m_resolvedBreakpoints (w_manager w) ''id2'' = Some 1
        \<and> RemoveBreakpoint ''id2'' \<notin> set (m_cdp (w_manager w))
        \<and> RemoveBreakpoint ''id1'' \<in> set (m_cdp (w_manager w))
        \<and> m_resolvedBreakpoints (w_manager w) ''id1'' = None)"
  by code_simp

section \<open>Properties of browserDelegate.ts\<close>

lemma splitOn_nonempty: "splitOn c s \<noteq> []"
  by (induction s) (simp_all split: list.splits)





























text \<open>What \<open>urlToAbsolutePath\<close> returns for a url that a rule applies to.\<close>

lemma urlToAbsolutePath_rule:
  assumes "fileUrlToAbsolutePath P u = None \<or> fileUrlToAbsolutePath P u = Some []"
    and "List.find (\<lambda>entry. startsWith u (urlPrefix entry)) (r_rules resolver) = Some entry"
  shows "urlToAbsolutePath P resolver u = pathPrefix entry @ drop (length (pathPrefix entry)) u"
  using assms by (auto simp: urlToAbsolutePath_def Let_def substring_def)

text \<open>
  The second part of claim C6: a url of the origin of the base url whose path relative to
  the base url's path is empty or \<open>/\<close> gives \<open>index.html\<close> in the web root.
\<close>

lemma urlToAbsolutePath_index:
  assumes "fileUrlToAbsolutePath P u = None \<or> fileUrlToAbsolutePath P u = Some []"
    and "List.find (\<lambda>entry. startsWith u (urlPrefix entry)) (r_rules resolver) = None"
    and "r_basePath resolver = Some basePath" "basePath \<noteq> []" "r_baseUrl resolver = Some baseUrl"
    and "url_new P u None = Inr parsed" "url_origin P parsed = url_origin P baseUrl"
    and "basepath = (if \<not> endsWith (path_normalize P (url_pathname P baseUrl)) (path_sep P)
                     then path_normalize P (url_pathname P baseUrl) @ ''/''
                     else path_normalize P (url_pathname P baseUrl))"
    and "startsWith (path_normalize P (url_pathname P parsed)) basepath"
    and "basepath = path_normalize P (url_pathname P parsed)
         \<or> path_normalize P (path_relative P basepath (path_normalize P (url_pathname P parsed))) = []
         \<or> path_normalize P (path_relative P basepath (path_normalize P (url_pathname P parsed))) = ''/''"
  shows "urlToAbsolutePath P resolver u = path_join P basePath ''index.html''"
  using assms by (auto simp: urlToAbsolutePath_def Let_def)

lemma exampleResolver_value:
  "exampleResolver =
     \<lparr>r_basePath = Some ''/web'',
      r_baseUrl = Some \<lparr>su_protocol = ''http:'', su_host = ''localhost:8000'', su_pathname = ''/'',
                         su_search = [], su_hash = []\<rparr>,
      r_rules = [\<lparr>urlPrefix = ''webpack:///./~/'', pathPrefix = ''/web/node_modules/''\<rparr>,
                 \<lparr>urlPrefix = ''webpack:///./'', pathPrefix = ''/web/''\<rparr>,
                 \<lparr>urlPrefix = ''webpack:///src/'', pathPrefix = ''/web/''\<rparr>,
                 \<lparr>urlPrefix = ''webpack:///'', pathPrefix = ''/''\<rparr>],
      r_rootPath = None\<rparr>"
  by code_simp

text \<open>
  Claim C6 on the code. The url \<open>webpack:///./src/app.js\<close> starts with the prefix
  \<open>webpack:///./\<close> of the second rule, whose path prefix is \<open>/web/\<close>. The code appends the url
  from the length of the path prefix on (5 characters) instead of the length of the url
  prefix (13 characters): it returns \<open>/web/ck:///./src/app.js\<close>, where the path prefix followed
  by the remainder of the url after its url prefix is \<open>/web/src/app.js\<close>.
\<close>

theorem urlToAbsolutePath_webpack_prefix:
  "urlToAbsolutePath examplePlatform exampleResolver ''webpack:///./src/app.js'' = ''/web/ck:///./src/app.js''
   \<and> List.find (\<lambda>entry. startsWith ''webpack:///./src/app.js'' (urlPrefix entry)) (r_rules exampleResolver)
       = Some \<lparr>urlPrefix = ''webpack:///./'', pathPrefix = ''/web/''\<rparr>
   \<and> ''/web/'' @ drop (length ''webpack:///./'') ''webpack:///./src/app.js'' = ''/web/src/app.js''
   \<and> urlToAbsolutePath examplePlatform exampleResolver ''http://localhost:8000/'' = ''/web/index.html''"
  unfolding exampleResolver_value by code_simp



end
